theory Spec2Isabelle
  imports Complex_Main
begin

section \<open>Errors\<close>

text \<open>
  The Python exceptions the modelled code can raise.  A function that can raise returns
  \<open>py_error + 'a\<close>, with \<open>Inl\<close> for the exception.
\<close>

datatype py_error =
  ValueError | KeyError | IndexError | OSError | ParserError | EmptyDataError | TypeError

section \<open>Strings\<close>

text \<open>
  Strings are ASCII character lists.  \<open>str.strip()\<close> removes the characters for which
  \<open>str.isspace()\<close> holds: in ASCII these are the codes 9 to 13 and 28 to 32.
\<close>

definition is_space :: "char \<Rightarrow> bool" where
  "is_space c = (let n = (of_char c :: nat) in (9 \<le> n \<and> n \<le> 13) \<or> (28 \<le> n \<and> n \<le> 32))"

definition strip :: "string \<Rightarrow> string" where
  "strip s = rev (dropWhile is_space (rev (dropWhile is_space s)))"

text \<open>\<open>s.split(c)\<close> for a one-character separator: always at least one part.\<close>

fun split_on :: "char \<Rightarrow> string \<Rightarrow> string list" where
  "split_on c [] = [[]]"
| "split_on c (x # xs) =
     (if x = c then [] # split_on c xs
      else (case split_on c xs of [] \<Rightarrow> [[x]] | p # ps \<Rightarrow> (x # p) # ps))"

text \<open>
  \<open>s.zfill(2)\<close>: a string of two or more characters is returned as it is; a shorter one is
  padded with zeros on the left, after a leading sign if there is one.
\<close>

definition zfill2 :: "string \<Rightarrow> string" where
  "zfill2 s =
     (if 2 \<le> length s then s
      else (case s of
              [] \<Rightarrow> ''00''
            | c # r \<Rightarrow> if c = CHR ''+'' \<or> c = CHR ''-'' then c # CHR ''0'' # r
                       else CHR ''0'' # s))"

definition is_digit :: "char \<Rightarrow> bool" where
  "is_digit c = (48 \<le> (of_char c :: nat) \<and> (of_char c :: nat) \<le> 57)"

definition digit_val :: "char \<Rightarrow> nat" where
  "digit_val c = of_char c - 48"

definition in_range :: "char \<Rightarrow> char \<Rightarrow> char \<Rightarrow> bool" where
  "in_range lo hi c = ((of_char lo :: nat) \<le> of_char c \<and> (of_char c :: nat) \<le> of_char hi)"

section \<open>strptime\<close>

text \<open>
  \<open>datetime.strptime\<close> turns the format into a regular expression, matches it at the start
  of the text (\<open>re.match\<close>) and raises \<open>ValueError\<close> when there is no match or when text
  remains after the match.  Each directive is an alternation, tried in order with
  backtracking:
  \<^item> \<open>%H\<close> is \<open>2[0-3]|[0-1]\d|\d\<close>, \<open>%M\<close> is \<open>[0-5]\d|\d\<close>;
  \<^item> \<open>%Y\<close> is \<open>\d\d\d\d\<close>, \<open>%m\<close> is \<open>1[0-2]|0[1-9]|[1-9]\<close>,
    \<open>%d\<close> is \<open>3[0-1]|[1-2]\d|0[1-9]|[1-9]| [1-9]\<close>.

  A matcher returns every way it can match a prefix of the text, in the order the regular
  expression engine tries them, each with the value read and the text left.  The first
  element of the sequenced matchers is the match \<open>re.match\<close> finds.
\<close>

fun two_digits :: "(char \<Rightarrow> bool) \<Rightarrow> (char \<Rightarrow> bool) \<Rightarrow> string \<Rightarrow> (nat \<times> string) list" where
  "two_digits p q (a # b # r) =
     (if p a \<and> q b then [(10 * digit_val a + digit_val b, r)] else [])"
| "two_digits p q _ = []"

fun one_digit :: "(char \<Rightarrow> bool) \<Rightarrow> string \<Rightarrow> (nat \<times> string) list" where
  "one_digit p (a # r) = (if p a then [(digit_val a, r)] else [])"
| "one_digit p [] = []"

fun lit :: "char \<Rightarrow> string \<Rightarrow> string list" where
  "lit c (x # r) = (if x = c then [r] else [])"
| "lit c [] = []"

definition re_H :: "string \<Rightarrow> (nat \<times> string) list" where
  "re_H s = two_digits (in_range CHR ''2'' CHR ''2'') (in_range CHR ''0'' CHR ''3'') s
          @ two_digits (in_range CHR ''0'' CHR ''1'') is_digit s
          @ one_digit is_digit s"

definition re_M :: "string \<Rightarrow> (nat \<times> string) list" where
  "re_M s = two_digits (in_range CHR ''0'' CHR ''5'') is_digit s @ one_digit is_digit s"

record pytime =
  hour :: nat
  minute :: nat

text \<open>
  \<open>datetime.strptime(s, "%H:%M").time()\<close>; \<open>hm_matches\<close> are the matches of the
  format's regular expression: hour, minute and the text left.
\<close>

definition hm_matches :: "string \<Rightarrow> (nat \<times> nat \<times> string) list" where
  "hm_matches s =
     List.bind (re_H s) (\<lambda>(h, r1).
       List.bind (lit CHR '':'' r1) (\<lambda>r2.
         map (\<lambda>(m, r3). (h, m, r3)) (re_M r2)))"

definition strptime_HM :: "string \<Rightarrow> py_error + pytime" where
  "strptime_HM s =
     (case hm_matches s of
        [] \<Rightarrow> Inl ValueError
      | (h, m, rest) # _ \<Rightarrow>
          if rest = [] then Inr \<lparr>hour = h, minute = m\<rparr> else Inl ValueError)"

section \<open>Value normalizer: the time entered by the user\<close>

text \<open>
  \<open>parse_time_from_text\<close>: the text is stripped; when it contains a colon and splits into
  exactly two parts, each part is zero-filled to two characters and the parts are joined
  again; the result is parsed with \<open>%H:%M\<close>.  \<open>normalise_time\<close> is the text handed to
  \<open>strptime\<close>.
\<close>

definition normalise_time :: "string \<Rightarrow> string" where
  "normalise_time field_value =
     (let s = strip field_value in
      if CHR '':'' \<in> set s then
        (let parts = split_on CHR '':'' s in
         if length parts = 2 then zfill2 (parts ! 0) @ '':'' @ zfill2 (parts ! 1) else s)
      else s)"

definition parse_time_from_text :: "string \<Rightarrow> py_error + pytime" where
  "parse_time_from_text field_value = strptime_HM (normalise_time field_value)"

text \<open>
  The specification's \<open>HH:MM\<close>: two digits, a colon, two digits, the hour at most 23 and
  the minute at most 59.
\<close>

definition is_HHMM :: "string \<Rightarrow> bool" where
  "is_HHMM s =
     (case s of
        [a, b, c, d, e] \<Rightarrow>
          is_digit a \<and> is_digit b \<and> c = CHR '':'' \<and> is_digit d \<and> is_digit e
          \<and> 10 * digit_val a + digit_val b \<le> 23 \<and> 10 * digit_val d + digit_val e \<le> 59
      | _ \<Rightarrow> False)"

section \<open>Value normalizer: dates\<close>

record pydate =
  year :: nat
  month :: nat
  day :: nat

definition is_leap :: "nat \<Rightarrow> bool" where
  "is_leap y = (y mod 4 = 0 \<and> (y mod 100 \<noteq> 0 \<or> y mod 400 = 0))"

definition days_in_month :: "nat \<Rightarrow> nat \<Rightarrow> nat" where
  "days_in_month y m =
     (if m = 2 then (if is_leap y then 29 else 28)
      else if m = 4 \<or> m = 6 \<or> m = 9 \<or> m = 11 then 30 else 31)"

text \<open>The dates \<open>datetime.date\<close> can hold: years 1 to 9999.\<close>

definition valid_date :: "pydate \<Rightarrow> bool" where
  "valid_date d =
     (1 \<le> year d \<and> year d \<le> 9999 \<and> 1 \<le> month d \<and> month d \<le> 12
      \<and> 1 \<le> day d \<and> day d \<le> days_in_month (year d) (month d))"

fun re_Y :: "string \<Rightarrow> (nat \<times> string) list" where
  "re_Y (a # b # c # d # r) =
     (if is_digit a \<and> is_digit b \<and> is_digit c \<and> is_digit d
      then [(1000 * digit_val a + 100 * digit_val b + 10 * digit_val c + digit_val d, r)]
      else [])"
| "re_Y _ = []"

definition re_m :: "string \<Rightarrow> (nat \<times> string) list" where
  "re_m s = two_digits (in_range CHR ''1'' CHR ''1'') (in_range CHR ''0'' CHR ''2'') s
          @ two_digits (in_range CHR ''0'' CHR ''0'') (in_range CHR ''1'' CHR ''9'') s
          @ one_digit (in_range CHR ''1'' CHR ''9'') s"

fun space_digit :: "string \<Rightarrow> (nat \<times> string) list" where
  "space_digit (a # b # r) =
     (if a = CHR '' '' \<and> in_range CHR ''1'' CHR ''9'' b then [(digit_val b, r)] else [])"
| "space_digit _ = []"

definition re_d :: "string \<Rightarrow> (nat \<times> string) list" where
  "re_d s = two_digits (in_range CHR ''3'' CHR ''3'') (in_range CHR ''0'' CHR ''1'') s
          @ two_digits (in_range CHR ''1'' CHR ''2'') is_digit s
          @ two_digits (in_range CHR ''0'' CHR ''0'') (in_range CHR ''1'' CHR ''9'') s
          @ one_digit (in_range CHR ''1'' CHR ''9'') s
          @ space_digit s"

text \<open>The three formats \<open>parse_date_str\<close> tries, in its order.\<close>

datatype date_format = Ymd_dash | dmY_slash | dmY_dash

definition date_formats :: "date_format list" where
  "date_formats = [Ymd_dash, dmY_slash, dmY_dash]"

text \<open>The matches of a format's regular expression: year, month, day and the text left.\<close>

definition dmY_matches :: "char \<Rightarrow> string \<Rightarrow> (nat \<times> nat \<times> nat \<times> string) list" where
  "dmY_matches sep s =
     List.bind (re_d s) (\<lambda>(d, r1).
       List.bind (lit sep r1) (\<lambda>r2.
         List.bind (re_m r2) (\<lambda>(m, r3).
           List.bind (lit sep r3) (\<lambda>r4.
             map (\<lambda>(y, r5). (y, m, d, r5)) (re_Y r4)))))"

fun date_matches :: "date_format \<Rightarrow> string \<Rightarrow> (nat \<times> nat \<times> nat \<times> string) list" where
  "date_matches Ymd_dash s =
     List.bind (re_Y s) (\<lambda>(y, r1).
       List.bind (lit CHR ''-'' r1) (\<lambda>r2.
         List.bind (re_m r2) (\<lambda>(m, r3).
           List.bind (lit CHR ''-'' r3) (\<lambda>r4.
             map (\<lambda>(d, r5). (y, m, d, r5)) (re_d r4)))))"
| "date_matches dmY_slash s = dmY_matches CHR ''/'' s"
| "date_matches dmY_dash s = dmY_matches CHR ''-'' s"

text \<open>
  \<open>datetime.strptime(s, fmt).date()\<close>: no match, text left after the match, or a date
  that does not exist (year 0, 30 February) raise \<open>ValueError\<close>.
\<close>

definition strptime_date :: "date_format \<Rightarrow> string \<Rightarrow> py_error + pydate" where
  "strptime_date fmt s =
     (case date_matches fmt s of
        [] \<Rightarrow> Inl ValueError
      | (y, m, d, rest) # _ \<Rightarrow>
          if rest \<noteq> [] then Inl ValueError
          else if valid_date \<lparr>year = y, month = m, day = d\<rparr>
          then Inr \<lparr>year = y, month = m, day = d\<rparr>
          else Inl ValueError)"

text \<open>
  \<open>parse_date_str(value)\<close>.  The argument is \<open>None\<close> when \<open>pd.isna(value)\<close> holds and
  otherwise the text \<open>str(value)\<close>; \<open>today\<close> is \<open>datetime.today().date()\<close>.  The loop
  catches \<open>ValueError\<close> only.
\<close>

fun try_date_formats :: "date_format list \<Rightarrow> string \<Rightarrow> pydate \<Rightarrow> py_error + pydate" where
  "try_date_formats [] s today = Inr today"
| "try_date_formats (fmt # fmts) s today =
     (case strptime_date fmt s of
        Inr d \<Rightarrow> Inr d
      | Inl ValueError \<Rightarrow> try_date_formats fmts s today
      | Inl e \<Rightarrow> Inl e)"

definition parse_date_str :: "pydate \<Rightarrow> string option \<Rightarrow> py_error + pydate" where
  "parse_date_str today v =
     (case v of
        None \<Rightarrow> Inr today
      | Some text \<Rightarrow> try_date_formats date_formats (strip text) today)"

text \<open>
  Rendering, as \<open>strftime\<close> does it with zero-padded fields: two digits for day, month,
  hour, minute and second, four for the year.
\<close>

definition digit_char :: "nat \<Rightarrow> char" where
  "digit_char n = ''0123456789'' ! n"

definition pad2 :: "nat \<Rightarrow> string" where
  "pad2 n = [digit_char (n div 10 mod 10), digit_char (n mod 10)]"

definition pad4 :: "nat \<Rightarrow> string" where
  "pad4 n = [digit_char (n div 1000 mod 10), digit_char (n div 100 mod 10),
             digit_char (n div 10 mod 10), digit_char (n mod 10)]"

text \<open>\<open>d.strftime("%Y-%m-%d")\<close>, the canonical form of a date.\<close>

definition strftime_Ymd :: "pydate \<Rightarrow> string" where
  "strftime_Ymd d = pad4 (year d) @ ''-'' @ pad2 (month d) @ ''-'' @ pad2 (day d)"

text \<open>The two other supported renderings, \<open>DD/MM/YYYY\<close> and \<open>DD-MM-YYYY\<close>.\<close>

definition render_dmY :: "char \<Rightarrow> pydate \<Rightarrow> string" where
  "render_dmY sep d = pad2 (day d) @ [sep] @ pad2 (month d) @ [sep] @ pad4 (year d)"

text \<open>\<open>t.strftime("%H:%M")\<close>.\<close>

definition strftime_HM :: "pytime \<Rightarrow> string" where
  "strftime_HM t = pad2 (hour t) @ '':'' @ pad2 (minute t)"

section \<open>Tables\<close>

text \<open>
  A pandas value is a missing value (\<open>NaN\<close>), a text or a number.  A number is given by
  its exact value (every finite \<open>float64\<close> is a rational); no arithmetic on numbers is
  defined here.  \<open>NumText q\<close> is a text too: the text pandas writes for the number \<open>q\<close>,
  which is what \<open>read_csv\<close> gives for a number in a column of texts (the digits of a
  number are not modelled, see below).
\<close>

datatype cell = NaN | Str string | Num rat | NumText rat

text \<open>
  A \<open>DataFrame\<close>: the column names in order, and the rows in order, each with its index
  label and one value per column.
\<close>

record dataframe =
  columns :: "string list"
  rows :: "(nat \<times> cell list) list"

text \<open>The value of column \<open>c\<close> in a row (the first column of that name).\<close>

definition row_get :: "string list \<Rightarrow> cell list \<Rightarrow> string \<Rightarrow> cell" where
  "row_get cols r c = (case map_of (zip cols r) c of Some v \<Rightarrow> v | None \<Rightarrow> NaN)"

text \<open>\<open>df[c]\<close>, the values of a column from the first row to the last.\<close>

definition column_values :: "dataframe \<Rightarrow> string \<Rightarrow> cell list" where
  "column_values df c = map (\<lambda>(l, r). row_get (columns df) r c) (rows df)"

text \<open>\<open>pd.DataFrame(columns=cols)\<close>.\<close>

definition empty_frame :: "string list \<Rightarrow> dataframe" where
  "empty_frame cols = \<lparr>columns = cols, rows = []\<rparr>"

text \<open>\<open>pd.DataFrame([d])\<close> for a dictionary \<open>d\<close>, given as its items in order.\<close>

definition frame_of_dict :: "(string \<times> cell) list \<Rightarrow> dataframe" where
  "frame_of_dict d = \<lparr>columns = map fst d, rows = [(0, map snd d)]\<rparr>"

text \<open>
  \<open>df[c] = v\<close> for a scalar \<open>v\<close>: an existing column is overwritten, a new one is added
  as the last column.
\<close>

definition set_column :: "dataframe \<Rightarrow> string \<Rightarrow> cell \<Rightarrow> dataframe" where
  "set_column df c v =
     (if c \<in> set (columns df)
      then df\<lparr>rows := map (\<lambda>(l, r). (l, map (\<lambda>(n, x). if n = c then v else x) (zip (columns df) r)))
                         (rows df)\<rparr>
      else df\<lparr>columns := columns df @ [c], rows := map (\<lambda>(l, r). (l, r @ [v])) (rows df)\<rparr>)"

text \<open>\<open>df[cols]\<close>: the listed columns in the listed order; \<open>KeyError\<close> if one is missing.\<close>

definition select_columns :: "dataframe \<Rightarrow> string list \<Rightarrow> py_error + dataframe" where
  "select_columns df cols =
     (if list_all (\<lambda>c. c \<in> set (columns df)) cols
      then Inr \<lparr>columns = cols,
                rows = map (\<lambda>(l, r). (l, map (row_get (columns df) r) cols)) (rows df)\<rparr>
      else Inl KeyError)"

text \<open>\<open>df.reset_index(drop=True)\<close>: the rows are labelled 0, 1, 2, ... again.\<close>

definition reset_index :: "dataframe \<Rightarrow> dataframe" where
  "reset_index df = df\<lparr>rows := zip [0..<length (rows df)] (map snd (rows df))\<rparr>"

text \<open>
  \<open>pd.concat([df1, df2], ignore_index=True)\<close>: the columns of \<open>df1\<close>, then those of
  \<open>df2\<close> that \<open>df1\<close> does not have; the rows of \<open>df1\<close>, then those of \<open>df2\<close>, with
  \<open>NaN\<close> where a frame has no such column; the rows are labelled again.
\<close>

definition pd_concat :: "dataframe \<Rightarrow> dataframe \<Rightarrow> dataframe" where
  "pd_concat df1 df2 =
     (let cols = columns df1 @ filter (\<lambda>c. c \<notin> set (columns df1)) (columns df2);
          widen = (\<lambda>df. map (\<lambda>(l, r). (l, map (row_get (columns df) r) cols)) (rows df))
      in reset_index \<lparr>columns = cols, rows = widen df1 @ widen df2\<rparr>)"

text \<open>
  \<open>df.drop(index=label)\<close>: the rows with this label are removed; \<open>KeyError\<close> if there
  is none.
\<close>

definition drop_index :: "dataframe \<Rightarrow> nat \<Rightarrow> py_error + dataframe" where
  "drop_index df label =
     (if label \<in> fst ` set (rows df)
      then Inr (df\<lparr>rows := filter (\<lambda>(l, r). l \<noteq> label) (rows df)\<rparr>)
      else Inl KeyError)"

text \<open>
  \<open>df.loc[label, c] = v\<close>: the value of column \<open>c\<close> in the rows with this label.  A
  column or a label that does not exist yet is added, with \<open>NaN\<close> in the other places.
\<close>

definition loc_set :: "dataframe \<Rightarrow> nat \<Rightarrow> string \<Rightarrow> cell \<Rightarrow> dataframe" where
  "loc_set df label c v =
     (let df1 = (if c \<in> set (columns df) then df else set_column df c NaN);
          df2 = (if label \<in> fst ` set (rows df1) then df1
                 else df1\<lparr>rows := rows df1 @ [(label, replicate (length (columns df1)) NaN)]\<rparr>)
      in df2\<lparr>rows := map (\<lambda>(l, r).
            if l = label
            then (l, map (\<lambda>(n, x). if n = c then v else x) (zip (columns df2) r))
            else (l, r)) (rows df2)\<rparr>)"

text \<open>\<open>df[df[c].isin(accepted)]\<close>: the rows whose value of \<open>c\<close> is one of the accepted.\<close>

definition filter_isin :: "dataframe \<Rightarrow> string \<Rightarrow> cell list \<Rightarrow> dataframe" where
  "filter_isin df c accepted =
     df\<lparr>rows := filter (\<lambda>(l, r). row_get (columns df) r c \<in> set accepted) (rows df)\<rparr>"

section \<open>The CSV file\<close>

text \<open>
  The file is modelled after the CSV layer (delimiter, quoting, encoding): a header line
  of column names and lines of fields.  A field is a text or the text of a number; the
  digits pandas writes for a number are not modelled, the field holds the number.
\<close>

datatype field = FText string | FNum rat

record csv_file =
  header :: "string list"
  body :: "field list list"

text \<open>
  \<open>df.to_csv(path, sep=";", index=False)\<close>: the column names, then one line per row; a
  missing value is written as the empty text.
\<close>

fun cell_field :: "cell \<Rightarrow> field" where
  "cell_field NaN = FText []"
| "cell_field (Str s) = FText s"
| "cell_field (Num q) = FNum q"
| "cell_field (NumText q) = FNum q"

definition to_csv :: "dataframe \<Rightarrow> csv_file" where
  "to_csv df = \<lparr>header = columns df, body = map (\<lambda>(l, r). map cell_field r) (rows df)\<rparr>"

text \<open>The texts \<open>pd.read_csv\<close> reads as a missing value by default.\<close>

definition na_values :: "string list" where
  "na_values = ['''', ''#N/A'', ''#N/A N/A'', ''#NA'', ''-1.#IND'', ''-1.#QNAN'', ''-NaN'',
     ''-nan'', ''1.#IND'', ''1.#QNAN'', ''<NA>'', ''N/A'', ''NA'', ''NULL'', ''NaN'', ''None'',
     ''n/a'', ''nan'', ''null'']"

fun is_na :: "field \<Rightarrow> bool" where
  "is_na (FText s) = (s \<in> set na_values)"
| "is_na (FNum q) = False"

text \<open>
  A text that reads as a number: an optional sign, digits, and an optional fractional
  part.  Exponents, infinities and surrounding blanks are not modelled.
\<close>

definition nat_of_digits :: "string \<Rightarrow> nat" where
  "nat_of_digits s = foldl (\<lambda>acc c. 10 * acc + digit_val c) 0 s"

definition parse_decimal :: "string \<Rightarrow> rat option" where
  "parse_decimal s =
     (let (sgn, digits) =
            (case s of
               c # r \<Rightarrow> if c = CHR ''-'' then (- 1, r) else if c = CHR ''+'' then (1, r) else (1, s)
             | [] \<Rightarrow> (1, s))
      in case split_on CHR ''.'' digits of
           [ip] \<Rightarrow>
             if ip \<noteq> [] \<and> list_all is_digit ip then Some (sgn * of_nat (nat_of_digits ip))
             else None
         | [ip, fp] \<Rightarrow>
             if (ip \<noteq> [] \<or> fp \<noteq> []) \<and> list_all is_digit ip \<and> list_all is_digit fp
             then Some (sgn * (of_nat (nat_of_digits ip) + of_nat (nat_of_digits fp) / 10 ^ length fp))
             else None
         | _ \<Rightarrow> None)"

fun field_num :: "field \<Rightarrow> rat option" where
  "field_num (FNum q) = Some q"
| "field_num (FText s) = parse_decimal s"

text \<open>
  The values of one column of the file.  A column whose fields are all missing or numeric
  is a numeric column; in any other column every field that is not missing is a text, also
  the text of a number.  (Boolean columns are not modelled.)
\<close>

definition convert_column :: "field list \<Rightarrow> cell list" where
  "convert_column fs =
     (if list_all (\<lambda>f. is_na f \<or> field_num f \<noteq> None) fs
      then map (\<lambda>f. if is_na f then NaN else (case field_num f of Some q \<Rightarrow> Num q | None \<Rightarrow> NaN)) fs
      else map (\<lambda>f. if is_na f then NaN else (case f of FText s \<Rightarrow> Str s | FNum q \<Rightarrow> NumText q)) fs)"

text \<open>
  \<open>pd.read_csv(path, sep=";")\<close>.  A file without a header line raises \<open>EmptyDataError\<close>,
  a line with more fields than the header raises \<open>ParserError\<close>; a shorter line is filled
  with missing values.  The rows are labelled 0, 1, 2, ...
\<close>

definition pad_line :: "nat \<Rightarrow> field list \<Rightarrow> field list" where
  "pad_line n line = line @ replicate (n - length line) (FText [])"

definition read_csv :: "csv_file \<Rightarrow> py_error + dataframe" where
  "read_csv f =
     (if header f = [] then Inl EmptyDataError
      else if list_ex (\<lambda>line. length (header f) < length line) (body f) then Inl ParserError
      else
        (let n = length (header f);
             lines = map (pad_line n) (body f);
             cols = map (\<lambda>j. convert_column (map (\<lambda>line. line ! j) lines)) [0..<n]
         in Inr \<lparr>columns = header f,
                  rows = map (\<lambda>i. (i, map (\<lambda>col. col ! i) cols)) [0..<length lines]\<rparr>))"

section \<open>The catch log\<close>

definition COLUMNS :: "string list" where
  "COLUMNS = [''date'', ''heure'', ''espece'', ''taille_cm'', ''poids'', ''unite_poids'', ''spot'',
     ''type_leurre'', ''nom_leurre'', ''conditions'', ''remis_a_leau'', ''commentaire'',
     ''photo_fichier'']"

text \<open>
  What the program reads and changes outside its variables: the file
  \<open>carnet_prises.csv\<close> (\<open>None\<close> when it does not exist), whether writing it raises
  \<open>PermissionError\<close> (the file is open in another program), the photo files the program
  has written, by the path each was opened with, the value \<open>st.cache_data\<close> holds for
  \<open>load_data\<close>, and what the operating system answers when a photo file is opened for
  writing: for each path, the exception that \<open>open(path, "wb")\<close> raises (a directory of
  the path does not exist, the name is too long for the file system or holds a NUL
  character, the disk is full, ...), or \<open>None\<close> when the file is created and written.
\<close>

record world =
  csv :: "csv_file option"
  locked :: bool
  photos :: "string \<rightharpoonup> string"
  cache :: "dataframe option"
  open_error :: "string \<rightharpoonup> py_error"

text \<open>What the page shows the user: \<open>st.error\<close> and \<open>st.success\<close> calls.\<close>

datatype message =
  ErrorCannotWrite | ErrorInvalidTime | SuccessSaved | SuccessUpdated | SuccessDeleted

text \<open>The body of \<open>load_data\<close>.\<close>

definition backfill :: "dataframe \<Rightarrow> dataframe" where
  "backfill df = fold (\<lambda>col df. if col \<notin> set (columns df) then set_column df col (Str []) else df)
                      COLUMNS df"

definition load_data_body :: "csv_file option \<Rightarrow> py_error + dataframe" where
  "load_data_body file =
     (case (case file of Some f \<Rightarrow> read_csv f | None \<Rightarrow> Inr (empty_frame COLUMNS)) of
        Inl e \<Rightarrow> Inl e
      | Inr df \<Rightarrow> select_columns (backfill df) COLUMNS)"

text \<open>
  \<open>load_data\<close> under \<open>@st.cache_data\<close>: the cached table if there is one, otherwise the
  body runs and its result is cached.  \<open>st.cache_data.clear()\<close> empties the cache.
\<close>

definition load_data :: "world \<Rightarrow> py_error + (dataframe \<times> world)" where
  "load_data w =
     (case cache w of
        Some df \<Rightarrow> Inr (df, w)
      | None \<Rightarrow>
          (case load_data_body (csv w) of
             Inl e \<Rightarrow> Inl e
           | Inr df \<Rightarrow> Inr (df, w\<lparr>cache := Some df\<rparr>)))"

definition cache_clear :: "world \<Rightarrow> world" where
  "cache_clear w = w\<lparr>cache := None\<rparr>"

text \<open>\<open>save_data\<close>: \<open>PermissionError\<close> is caught and shown; the function returns nothing.\<close>

definition save_data :: "dataframe \<Rightarrow> world \<Rightarrow> world \<times> message list" where
  "save_data df w =
     (if locked w then (w, [ErrorCannotWrite]) else (w\<lparr>csv := Some (to_csv df)\<rparr>, []))"

section \<open>The photo store\<close>

record upload =
  upload_name :: string
  upload_bytes :: string

record pydatetime =
  dt_date :: pydate
  dt_time :: pytime
  dt_second :: nat

text \<open>\<open>now.strftime("%Y%m%d_%H%M%S")\<close>.\<close>

definition timestamp :: "pydatetime \<Rightarrow> string" where
  "timestamp now =
     pad4 (year (dt_date now)) @ pad2 (month (dt_date now)) @ pad2 (day (dt_date now)) @ ''_''
     @ pad2 (hour (dt_time now)) @ pad2 (minute (dt_time now)) @ pad2 (dt_second now)"

text \<open>\<open>name.replace(" ", "_")\<close>.\<close>

definition replace_spaces :: "string \<Rightarrow> string" where
  "replace_spaces s = map (\<lambda>c. if c = CHR '' '' then CHR ''_'' else c) s"

text \<open>
  \<open>PHOTOS_DIR / filename\<close> on a POSIX system: the file name is split at \<open>/\<close>, empty parts
  and \<open>.\<close> parts are dropped, and the parts are appended to the directory.
\<close>

definition path_parts :: "string \<Rightarrow> string list" where
  "path_parts s = filter (\<lambda>p. p \<noteq> [] \<and> p \<noteq> ''.'') (split_on CHR ''/'' s)"

fun join_path :: "string list \<Rightarrow> string" where
  "join_path [] = []"
| "join_path [p] = p"
| "join_path (p # ps) = p @ ''/'' @ join_path ps"

text \<open>
  \<open>enregistrer_photo\<close>.  \<open>filepath\<close> is \<open>PHOTOS_DIR / filename\<close> and the result is
  \<open>str(filepath)\<close>; \<open>open(filepath, "wb")\<close> either raises, and nothing is written, or the
  bytes of the upload become the content of the file at this path.
\<close>

definition enregistrer_photo :: "pydatetime \<Rightarrow> upload option \<Rightarrow> world \<Rightarrow> py_error + (string \<times> world)" where
  "enregistrer_photo now file w =
     (case file of
        None \<Rightarrow> Inr ([], w)
      | Some f \<Rightarrow>
          (let safe_name = replace_spaces (upload_name f);
               filename = timestamp now @ ''_'' @ safe_name;
               filepath = join_path (''photos'' # path_parts filename)
           in case open_error w filepath of
                Some e \<Rightarrow> Inl e
              | None \<Rightarrow> Inr (filepath, w\<lparr>photos := (photos w)(filepath \<mapsto> upload_bytes f)\<rparr>)))"

section \<open>The page\<close>

text \<open>
  One run of \<open>main\<close> handles at most one button.  The three handlers are modelled one
  by one; each starts with the \<open>df = load_data()\<close> of the top of \<open>main\<close> and returns the
  table the run ends with, the world and the messages shown.
\<close>

text \<open>The fields of the side bar form (and of the edit form).\<close>

record form =
  date_prise :: pydate
  heure_str :: string
  espece :: string
  taille :: rat
  poids :: rat
  unite_poids :: string
  spot :: string
  type_leurre :: string
  nom_leurre :: string
  conditions :: string
  remis_a_leau :: string
  commentaire :: string
  photo_new :: "upload option"

definition new_row :: "form \<Rightarrow> pytime \<Rightarrow> cell \<Rightarrow> (string \<times> cell) list" where
  "new_row f heure_prise photo_path =
     [(''date'', Str (strftime_Ymd (date_prise f))),
      (''heure'', Str (strftime_HM heure_prise)),
      (''espece'', Str (espece f)),
      (''taille_cm'', Num (taille f)),
      (''poids'', Num (poids f)),
      (''unite_poids'', Str (unite_poids f)),
      (''spot'', Str (spot f)),
      (''type_leurre'', Str (type_leurre f)),
      (''nom_leurre'', Str (nom_leurre f)),
      (''conditions'', Str (conditions f)),
      (''remis_a_leau'', Str (remis_a_leau f)),
      (''commentaire'', Str (commentaire f)),
      (''photo_fichier'', photo_path)]"

text \<open>
  Lines 201 to 205 of \<open>main\<close>: the row is appended, the table saved, the cache cleared and
  the table loaded again.
\<close>

definition append_row :: "dataframe \<Rightarrow> (string \<times> cell) list \<Rightarrow> world
    \<Rightarrow> py_error + (dataframe \<times> world \<times> message list)" where
  "append_row df row w =
     (let df2 = pd_concat df (frame_of_dict row);
          (w2, msgs) = save_data df2 w;
          w3 = cache_clear w2
      in case load_data w3 of
           Inl e \<Rightarrow> Inl e
         | Inr (df3, w4) \<Rightarrow> Inr (df3, w4, msgs @ [SuccessSaved]))"

text \<open>The button "Enregistrer la prise" (lines 177 to 205).\<close>

definition main_add :: "pydatetime \<Rightarrow> form \<Rightarrow> world \<Rightarrow> py_error + (dataframe \<times> world \<times> message list)" where
  "main_add now f w =
     (case load_data w of
        Inl e \<Rightarrow> Inl e
      | Inr (df, w1) \<Rightarrow>
          (case parse_time_from_text (heure_str f) of
             Inl e \<Rightarrow> Inr (df, w1, [ErrorInvalidTime])
           | Inr heure_prise \<Rightarrow>
               (case enregistrer_photo now (photo_new f) w1 of
                  Inl e \<Rightarrow> Inl e
                | Inr (photo_path, w2) \<Rightarrow>
                    append_row df (new_row f heure_prise (Str photo_path)) w2)))"

text \<open>
  The form "Enregistrer les modifications" (lines 433 to 460) for the row chosen in the
  select box; \<open>row\<close> is \<open>df_with_idx[df_with_idx["id_interne"] == selected_id].iloc[0]\<close>.
\<close>

definition main_edit :: "pydatetime \<Rightarrow> nat \<Rightarrow> form \<Rightarrow> world
    \<Rightarrow> py_error + (dataframe \<times> world \<times> message list)" where
  "main_edit now selected_id f w =
     (case load_data w of
        Inl e \<Rightarrow> Inl e
      | Inr (df, w1) \<Rightarrow>
          (case filter (\<lambda>(l, r). l = selected_id) (rows df) of
             [] \<Rightarrow> Inl IndexError
           | (l, row) # _ \<Rightarrow>
               (case parse_time_from_text (heure_str f) of
                  Inl e \<Rightarrow> Inr (df, w1, [ErrorInvalidTime])
                | Inr heure_edit \<Rightarrow>
                    (case (case photo_new f of
                             None \<Rightarrow> Inr (row_get (columns df) row ''photo_fichier'', w1)
                           | Some u \<Rightarrow>
                               (case enregistrer_photo now (Some u) w1 of
                                  Inl e \<Rightarrow> Inl e
                                | Inr (p, w2) \<Rightarrow> Inr (Str p, w2))) of
                       Inl e \<Rightarrow> Inl e
                     | Inr (photo_path_edit, w2) \<Rightarrow>
                         (let df2 = fold (\<lambda>(c, v) d. loc_set d selected_id c v)
                                      (new_row f heure_edit photo_path_edit) df;
                              (w3, msgs) = save_data df2 w2;
                              w4 = cache_clear w3
                          in case load_data w4 of
                               Inl e \<Rightarrow> Inl e
                             | Inr (df3, w5) \<Rightarrow> Inr (df3, w5, msgs @ [SuccessUpdated]))))))"

text \<open>
  The button "Supprimer cette prise" (lines 463 to 468).  \<open>st.rerun()\<close> ends the run; the
  next run starts with \<open>load_data()\<close> on the world returned here.
\<close>

definition main_delete :: "nat \<Rightarrow> world \<Rightarrow> py_error + (dataframe \<times> world \<times> message list)" where
  "main_delete selected_id w =
     (case load_data w of
        Inl e \<Rightarrow> Inl e
      | Inr (df, w1) \<Rightarrow>
          (case drop_index df selected_id of
             Inl e \<Rightarrow> Inl e
           | Inr df1 \<Rightarrow>
               (let df2 = reset_index df1;
                    (w2, msgs) = save_data df2 w1
                in Inr (df2, cache_clear w2, msgs @ [SuccessDeleted]))))"

section \<open>Filters and statistics\<close>

text \<open>Lines 226 to 232: each filter applies only when something is selected in it.\<close>

definition apply_filters :: "dataframe \<Rightarrow> cell list \<Rightarrow> cell list \<Rightarrow> cell list \<Rightarrow> dataframe" where
  "apply_filters df espece_filter spot_filter leurre_filter =
     (let d1 = (if espece_filter \<noteq> [] then filter_isin df ''espece'' espece_filter else df);
          d2 = (if spot_filter \<noteq> [] then filter_isin d1 ''spot'' spot_filter else d1);
          d3 = (if leurre_filter \<noteq> [] then filter_isin d2 ''nom_leurre'' leurre_filter else d2)
      in d3)"















text \<open>
  The specification's words for a photo reference: a file directly in the directory
  \<open>photos\<close>.
\<close>

definition direct_child :: "string \<Rightarrow> bool" where
  "direct_child p =
     (case split_on CHR ''/'' p of
        [d, n] \<Rightarrow> d = ''photos'' \<and> n \<noteq> [] \<and> n \<noteq> ''.'' \<and> n \<noteq> ''..''
      | _ \<Rightarrow> False)"

(* ==== proofs ==== *)

chapter \<open>Properties\<close>

section \<open>The time entered by the user\<close>

lemma digit_not_colon: "is_digit c \<Longrightarrow> c \<noteq> CHR '':''"
  by (auto simp: is_digit_def)

lemma lit_Cons: "lit c s = r # rs \<Longrightarrow> s = c # r \<and> rs = []"
  by (cases "(c, s)" rule: lit.cases) (auto split: if_splits)

lemma lit_mem: "r \<in> set (lit c s) \<Longrightarrow> s = c # r"
  by (cases "(c, s)" rule: lit.cases) (auto split: if_splits)

lemma re_H_mem: "(h, r) \<in> set (re_H s) \<Longrightarrow>
   (\<exists>a b. s = a # b # r \<and> is_digit a \<and> is_digit b \<and> h = 10 * digit_val a + digit_val b \<and> h \<le> 23)
   \<or> (\<exists>a. s = a # r \<and> is_digit a \<and> h = digit_val a)"
  apply (cases s)
   apply (simp add: re_H_def)
  subgoal for a s'
    apply (cases s')
     apply (auto simp: re_H_def split: if_splits)[1]
    apply (auto simp: re_H_def in_range_def is_digit_def digit_val_def split: if_splits)
    done
  done

lemma re_M_mem: "(m, r) \<in> set (re_M s) \<Longrightarrow>
   (\<exists>a b. s = a # b # r \<and> is_digit a \<and> is_digit b \<and> m = 10 * digit_val a + digit_val b \<and> m \<le> 59)
   \<or> (\<exists>a. s = a # r \<and> is_digit a \<and> m = digit_val a)"
  apply (cases s)
   apply (simp add: re_M_def)
  subgoal for a s'
    apply (cases s')
     apply (auto simp: re_M_def split: if_splits)[1]
    apply (auto simp: re_M_def in_range_def is_digit_def digit_val_def split: if_splits)
    done
  done

lemma hm_matches_mem:
  assumes "(h, m, r) \<in> set (hm_matches t)"
  shows "\<exists>hs ms. t = hs @ CHR '':'' # ms @ r \<and> hs \<noteq> [] \<and> ms \<noteq> [] \<and> length hs \<le> 2 \<and> length ms \<le> 2
           \<and> list_all is_digit hs \<and> list_all is_digit ms"
proof -
  from assms obtain r1 r2 where a: "(h, r1) \<in> set (re_H t)" and b: "r2 \<in> set (lit CHR '':'' r1)"
     and c: "(m, r) \<in> set (re_M r2)"
    by (auto simp: hm_matches_def List.bind_def)
  from b have r1: "r1 = CHR '':'' # r2" by (rule lit_mem)
  from re_H_mem[OF a] obtain hs where hs: "t = hs @ r1" "hs \<noteq> []" "length hs \<le> 2" "list_all is_digit hs"
    by (elim disjE exE conjE) (fastforce+)
  from re_M_mem[OF c] obtain ms where ms: "r2 = ms @ r" "ms \<noteq> []" "length ms \<le> 2" "list_all is_digit ms"
    by (elim disjE exE conjE) (fastforce+)
  show ?thesis using hs ms r1 by auto
qed

lemma strptime_HM_forms:
  assumes "strptime_HM t = Inr tm"
  shows "\<exists>hs ms. t = hs @ CHR '':'' # ms \<and> hs \<noteq> [] \<and> ms \<noteq> [] \<and> length hs \<le> 2 \<and> length ms \<le> 2
           \<and> list_all is_digit hs \<and> list_all is_digit ms"
proof -
  from assms obtain h m xs where L: "hm_matches t = (h, m, []) # xs"
    by (auto simp: strptime_HM_def hm_matches_def split: list.splits if_splits)
  then have "(h, m, []) \<in> set (hm_matches t)" by simp
  from hm_matches_mem[OF this] show ?thesis by simp
qed

lemma split_on_nocolon: "c \<notin> set s \<Longrightarrow> split_on c s = [s]"
  by (induction s) auto

lemma split_on_append: "c \<notin> set h \<Longrightarrow> split_on c (h @ c # m) = h # split_on c m"
  by (induction h) auto

lemma split_on_parts: "p \<in> set (split_on c s) \<Longrightarrow> c \<notin> set p"
  by (induction s arbitrary: p) (auto split: if_splits list.splits)

lemma split_on_ne [simp]: "split_on c s \<noteq> []"
  by (induction s) (auto split: list.splits)

lemma split_on_single: "split_on c s = [q] \<Longrightarrow> s = q"
  by (induction s arbitrary: q) (auto split: if_splits list.splits)

lemma split_on_join2: "split_on c s = [p, q] \<Longrightarrow> s = p @ c # q"
  by (induction s arbitrary: p) (auto split: if_splits list.splits dest: split_on_single)

lemma zfill2_length: "2 \<le> length (zfill2 s)"
  by (auto simp: zfill2_def split: list.splits)

lemma zfill2_nocolon: "CHR '':'' \<notin> set s \<Longrightarrow> CHR '':'' \<notin> set (zfill2 s)"
  by (auto simp: zfill2_def split: list.splits)

lemma is_HHMM_strptime:
  assumes "is_HHMM t"
  shows "\<exists>a b d e. t = [a, b, CHR '':'', d, e] \<and>
     strptime_HM t = Inr \<lparr>hour = 10 * digit_val a + digit_val b, minute = 10 * digit_val d + digit_val e\<rparr>"
proof -
  from assms obtain a b d e where t: "t = [a, b, CHR '':'', d, e]"
    and dg: "is_digit a" "is_digit b" "is_digit d" "is_digit e"
    and rg: "10 * digit_val a + digit_val b \<le> 23" "10 * digit_val d + digit_val e \<le> 59"
    by (auto simp: is_HHMM_def split: list.splits)
  have "strptime_HM t = Inr \<lparr>hour = 10 * digit_val a + digit_val b, minute = 10 * digit_val d + digit_val e\<rparr>"
    using dg rg unfolding t
    by (auto simp: strptime_HM_def hm_matches_def re_H_def re_M_def in_range_def is_digit_def digit_val_def)
  with t show ?thesis by blast
qed



lemma re_H_two:
  assumes "is_digit a" "is_digit b"
  shows "re_H (a # b # r) =
     (if 10 * digit_val a + digit_val b \<le> 23 then [(10 * digit_val a + digit_val b, r)] else [])
     @ [(digit_val a, b # r)]"
  using assms by (auto simp: re_H_def in_range_def is_digit_def digit_val_def)

lemma re_M_two:
  assumes "is_digit a" "is_digit b"
  shows "re_M (a # b # r) =
     (if 10 * digit_val a + digit_val b \<le> 59 then [(10 * digit_val a + digit_val b, r)] else [])
     @ [(digit_val a, b # r)]"
  using assms by (auto simp: re_M_def in_range_def is_digit_def digit_val_def)

lemma lit_digit: "is_digit b \<Longrightarrow> lit CHR '':'' (b # r) = []"
  by (auto simp: is_digit_def)

lemma strptime_HM_dd_dd:
  assumes "is_digit a" "is_digit b" "is_digit d" "is_digit e"
  shows "strptime_HM [a, b, CHR '':'', d, e] =
     (if 10 * digit_val a + digit_val b \<le> 23 \<and> 10 * digit_val d + digit_val e \<le> 59
      then Inr \<lparr>hour = 10 * digit_val a + digit_val b, minute = 10 * digit_val d + digit_val e\<rparr>
      else Inl ValueError)"
  unfolding strptime_HM_def hm_matches_def using digit_not_colon[OF assms(2)]
  by (simp add: re_H_two[OF assms(1,2)] re_M_two[OF assms(3,4)])


lemma length_two: "length xs = 2 \<Longrightarrow> \<exists>a b. xs = [a, b]"
  by (cases xs; simp; cases "tl xs"; simp)

lemma strptime_HM_two_parts:
  assumes "strptime_HM (h @ CHR '':'' # m) = Inr tm" "2 \<le> length h" "2 \<le> length m"
     "CHR '':'' \<notin> set h" "CHR '':'' \<notin> set m"
  shows "is_HHMM (h @ CHR '':'' # m)"
proof -
  from strptime_HM_forms[OF assms(1)] obtain hs ms where
    f: "h @ CHR '':'' # m = hs @ CHR '':'' # ms" "hs \<noteq> []" "ms \<noteq> []" "length hs \<le> 2" "length ms \<le> 2"
       "list_all is_digit hs" "list_all is_digit ms" by blast
  have nc: "CHR '':'' \<notin> set hs" "CHR '':'' \<notin> set ms"
    using f(6,7) digit_not_colon by (auto simp: list_all_iff)
  have A: "split_on CHR '':'' (h @ CHR '':'' # m) = [h, m]"
    using assms(4,5) by (simp add: split_on_append split_on_nocolon)
  have B: "split_on CHR '':'' (hs @ CHR '':'' # ms) = [hs, ms]"
    using nc by (simp add: split_on_append split_on_nocolon)
  have "[h, m] = [hs, ms]" using A B by (simp only: f(1))
  then have eq: "h = hs" "m = ms" by simp_all
  have "length h = 2" "length m = 2" using assms(2,3) f(4,5) eq by simp_all
  then obtain a b d e where h: "h = [a, b]" and m: "m = [d, e]"
    using length_two by blast
  have dg: "is_digit a" "is_digit b" "is_digit d" "is_digit e"
    using f(6,7) eq h m by auto
  have "strptime_HM [a, b, CHR '':'', d, e] = Inr tm" using assms(1) by (simp add: h m)
  then have "10 * digit_val a + digit_val b \<le> 23 \<and> 10 * digit_val d + digit_val e \<le> 59"
    by (simp add: strptime_HM_dd_dd[OF dg] split: if_splits)
  then show ?thesis by (simp add: h m is_HHMM_def dg)
qed


lemma normalise_time_ok:
  assumes "strptime_HM (normalise_time s) = Inr tm"
  shows "is_HHMM (normalise_time s)"
proof -
  let ?s = "strip s"
  from strptime_HM_forms[OF assms] obtain hs ms where
    f: "normalise_time s = hs @ CHR '':'' # ms" "list_all is_digit hs" "list_all is_digit ms" by blast
  have nc: "CHR '':'' \<notin> set hs" "CHR '':'' \<notin> set ms"
    using f(2,3) digit_not_colon by (auto simp: list_all_iff)
  have sp: "split_on CHR '':'' (normalise_time s) = [hs, ms]"
    unfolding f(1) using nc by (simp add: split_on_append split_on_nocolon)
  show ?thesis
  proof (cases "CHR '':'' \<in> set ?s \<and> length (split_on CHR '':'' ?s) = 2")
    case True
    then obtain p q where pq: "split_on CHR '':'' ?s = [p, q]"
      by (auto simp: length_Suc_conv numeral_2_eq_2)
    have ncp: "CHR '':'' \<notin> set p" "CHR '':'' \<notin> set q"
      using split_on_parts[of _ "CHR '':''" ?s] pq by auto
    have n: "normalise_time s = zfill2 p @ CHR '':'' # zfill2 q"
      using True pq by (simp add: normalise_time_def Let_def)
    show ?thesis unfolding n
      by (rule strptime_HM_two_parts[of _ _ tm])
         (use assms n ncp in \<open>simp_all add: zfill2_length zfill2_nocolon\<close>)
  next
    case False
    then have n: "normalise_time s = ?s"
      by (auto simp: normalise_time_def Let_def)
    with sp f(1) False show ?thesis by auto
  qed
qed


section \<open>Dates\<close>

lemma of_char_digit_char: "n < 10 \<Longrightarrow> (of_char (digit_char n) :: nat) = 48 + n"
proof -
  assume "n < 10"
  then consider "n = 0" | "n = 1" | "n = 2" | "n = 3" | "n = 4" | "n = 5" | "n = 6" | "n = 7"
    | "n = 8" | "n = 9" by atomize_elim arith
  then show ?thesis by cases (simp_all add: digit_char_def)
qed

lemma digit_char_digit: "n < 10 \<Longrightarrow> is_digit (digit_char n)"
  by (simp add: is_digit_def of_char_digit_char)

lemma digit_val_digit_char: "n < 10 \<Longrightarrow> digit_val (digit_char n) = n"
  by (simp add: digit_val_def of_char_digit_char)

lemma digit_not_space: "is_digit c \<Longrightarrow> \<not> is_space c"
  by (auto simp: is_digit_def is_space_def Let_def)


lemma pad2_digits:
  assumes "n < 100"
  shows "\<exists>a b. pad2 n = [a, b] \<and> is_digit a \<and> is_digit b \<and> 10 * digit_val a + digit_val b = n"
proof -
  have lt: "n div 10 < 10" "n mod 10 < 10" using assms by simp_all
  have e: "n div 10 mod 10 = n div 10" using lt by simp
  have v: "10 * (n div 10) + n mod 10 = n" by simp
  show ?thesis unfolding pad2_def e
    using digit_char_digit[OF lt(1)] digit_char_digit[OF lt(2)]
      digit_val_digit_char[OF lt(1)] digit_val_digit_char[OF lt(2)] v
    by (intro exI conjI) (rule refl | assumption | simp only:)+
qed


lemma pad4_digits:
  assumes "n < 10000"
  shows "\<exists>a b c d. pad4 n = [a, b, c, d] \<and> is_digit a \<and> is_digit b \<and> is_digit c \<and> is_digit d
     \<and> 1000 * digit_val a + 100 * digit_val b + 10 * digit_val c + digit_val d = n"
proof -
  define q1 where "q1 = n div 10"
  define q2 where "q2 = q1 div 10"
  define q3 where "q3 = q2 div 10"
  have d2: "n div 100 = q2" unfolding q2_def q1_def by (simp add: div_mult2_eq)
  have d3: "n div 1000 = q3" unfolding q3_def q2_def q1_def by (simp add: div_mult2_eq)
  have q3: "q3 < 10" using assms unfolding d3[symmetric] by simp
  have lt: "q3 mod 10 < 10" "q2 mod 10 < 10" "q1 mod 10 < 10" "n mod 10 < 10" by simp_all
  have e0: "n = 10 * q1 + n mod 10" unfolding q1_def by simp
  have e1: "q1 = 10 * q2 + q1 mod 10" unfolding q2_def by simp
  have e2: "q2 = 10 * q3 + q2 mod 10" unfolding q3_def by simp
  have e3: "q3 mod 10 = q3" using q3 by simp
  have v: "1000 * (q3 mod 10) + 100 * (q2 mod 10) + 10 * (q1 mod 10) + n mod 10 = n"
    using e0 e1 e2 e3 by linarith
  have p: "pad4 n = [digit_char (q3 mod 10), digit_char (q2 mod 10), digit_char (q1 mod 10), digit_char (n mod 10)]"
    unfolding pad4_def d2 d3 q1_def[symmetric] by (rule refl)
  show ?thesis unfolding p
    using digit_char_digit[OF lt(1)] digit_char_digit[OF lt(2)] digit_char_digit[OF lt(3)] digit_char_digit[OF lt(4)]
      digit_val_digit_char[OF lt(1)] digit_val_digit_char[OF lt(2)] digit_val_digit_char[OF lt(3)]
      digit_val_digit_char[OF lt(4)] v
    by (intro exI conjI) (rule refl | assumption | simp only:)+
qed


lemma re_m_two:
  assumes "is_digit a" "is_digit b" "1 \<le> 10 * digit_val a + digit_val b" "10 * digit_val a + digit_val b \<le> 12"
  shows "\<exists>ms. re_m (a # b # r) = (10 * digit_val a + digit_val b, r) # ms"
  using assms by (auto simp: re_m_def in_range_def is_digit_def digit_val_def)

lemma re_d_two:
  assumes "is_digit a" "is_digit b" "1 \<le> 10 * digit_val a + digit_val b" "10 * digit_val a + digit_val b \<le> 31"
  shows "\<exists>ds. re_d (a # b # r) = (10 * digit_val a + digit_val b, r) # ds"
  using assms by (auto simp: re_d_def in_range_def is_digit_def digit_val_def)

lemma re_d_rest: "(v, r) \<in> set (re_d (a # b # s)) \<Longrightarrow> r = s \<or> r = b # s"
  by (auto simp: re_d_def split: if_splits)

lemma bind_all_Nil: "(\<And>x. x \<in> set xs \<Longrightarrow> f x = []) \<Longrightarrow> List.bind xs f = []"
  by (induction xs) auto

lemma re_Y_four:
  assumes "is_digit a" "is_digit b" "is_digit c" "is_digit d"
  shows "re_Y (a # b # c # d # r) = [(1000 * digit_val a + 100 * digit_val b + 10 * digit_val c + digit_val d, r)]"
  using assms by simp

lemma re_Y_third: "\<not> is_digit c \<Longrightarrow> re_Y (a # b # c # r) = []"
  by (cases r) simp_all


lemma days_in_month_le: "days_in_month y m \<le> 31"
  by (simp add: days_in_month_def)

lemma lit_same: "lit c (c # r) = [r]"
  by simp

lemma dmY_matches_render:
  assumes "valid_date d"
  shows "\<exists>ms. dmY_matches sep (render_dmY sep d) = (year d, month d, day d, []) # ms"
proof -
  have b: "day d < 100" "month d < 100" "year d < 10000"
    using assms days_in_month_le[of "year d" "month d"] by (simp_all add: valid_date_def)
  from pad2_digits[OF b(1)] obtain a1 a2 where
    dd: "pad2 (day d) = [a1, a2]" "is_digit a1" "is_digit a2" "10 * digit_val a1 + digit_val a2 = day d"
    by blast
  from pad2_digits[OF b(2)] obtain b1 b2 where
    mm: "pad2 (month d) = [b1, b2]" "is_digit b1" "is_digit b2" "10 * digit_val b1 + digit_val b2 = month d"
    by blast
  from pad4_digits[OF b(3)] obtain c1 c2 c3 c4 where
    yy: "pad4 (year d) = [c1, c2, c3, c4]" "is_digit c1" "is_digit c2" "is_digit c3" "is_digit c4"
      "1000 * digit_val c1 + 100 * digit_val c2 + 10 * digit_val c3 + digit_val c4 = year d"
    by blast
  have rd: "1 \<le> 10 * digit_val a1 + digit_val a2" "10 * digit_val a1 + digit_val a2 \<le> 31"
    using assms days_in_month_le[of "year d" "month d"] unfolding dd(4) by (simp_all add: valid_date_def)
  have rm: "1 \<le> 10 * digit_val b1 + digit_val b2" "10 * digit_val b1 + digit_val b2 \<le> 12"
    using assms unfolding mm(4) by (simp_all add: valid_date_def)
  let ?r1 = "sep # b1 # b2 # sep # [c1, c2, c3, c4]"
  let ?r3 = "sep # [c1, c2, c3, c4]"
  from re_d_two[OF dd(2,3) rd, of ?r1] obtain ds where
    D: "re_d (a1 # a2 # ?r1) = (day d, ?r1) # ds" unfolding dd(4) by blast
  from re_m_two[OF mm(2,3) rm, of ?r3] obtain ms where
    M: "re_m (b1 # b2 # ?r3) = (month d, ?r3) # ms" unfolding mm(4) by blast
  have Y: "re_Y [c1, c2, c3, c4] = [(year d, [])]"
    using re_Y_four[OF yy(2-5), of "[]"] unfolding yy(6) .
  have R: "render_dmY sep d = a1 # a2 # ?r1"
    by (simp add: render_dmY_def dd(1) mm(1) yy(1))
  show ?thesis unfolding R dmY_matches_def
    by (simp add: D M Y del: re_Y.simps)
qed

lemma Ymd_matches_render:
  assumes "valid_date d"
  shows "\<exists>ms. date_matches Ymd_dash (strftime_Ymd d) = (year d, month d, day d, []) # ms"
proof -
  have b: "day d < 100" "month d < 100" "year d < 10000"
    using assms days_in_month_le[of "year d" "month d"] by (simp_all add: valid_date_def)
  from pad2_digits[OF b(1)] obtain a1 a2 where
    dd: "pad2 (day d) = [a1, a2]" "is_digit a1" "is_digit a2" "10 * digit_val a1 + digit_val a2 = day d"
    by blast
  from pad2_digits[OF b(2)] obtain b1 b2 where
    mm: "pad2 (month d) = [b1, b2]" "is_digit b1" "is_digit b2" "10 * digit_val b1 + digit_val b2 = month d"
    by blast
  from pad4_digits[OF b(3)] obtain c1 c2 c3 c4 where
    yy: "pad4 (year d) = [c1, c2, c3, c4]" "is_digit c1" "is_digit c2" "is_digit c3" "is_digit c4"
      "1000 * digit_val c1 + 100 * digit_val c2 + 10 * digit_val c3 + digit_val c4 = year d"
    by blast
  have rd: "1 \<le> 10 * digit_val a1 + digit_val a2" "10 * digit_val a1 + digit_val a2 \<le> 31"
    using assms days_in_month_le[of "year d" "month d"] unfolding dd(4) by (simp_all add: valid_date_def)
  have rm: "1 \<le> 10 * digit_val b1 + digit_val b2" "10 * digit_val b1 + digit_val b2 \<le> 12"
    using assms unfolding mm(4) by (simp_all add: valid_date_def)
  let ?r3 = "CHR ''-'' # [a1, a2]"
  let ?r1 = "CHR ''-'' # b1 # b2 # ?r3"
  from re_d_two[OF dd(2,3) rd, of "[]"] obtain ds where
    D: "re_d [a1, a2] = (day d, []) # ds" unfolding dd(4) by blast
  from re_m_two[OF mm(2,3) rm, of ?r3] obtain ms where
    M: "re_m (b1 # b2 # ?r3) = (month d, ?r3) # ms" unfolding mm(4) by blast
  have Y: "re_Y (c1 # c2 # c3 # c4 # ?r1) = [(year d, ?r1)]"
    using re_Y_four[OF yy(2-5), of ?r1] unfolding yy(6) .
  have R: "strftime_Ymd d = c1 # c2 # c3 # c4 # ?r1"
    by (simp add: strftime_Ymd_def dd(1) mm(1) yy(1))
  show ?thesis unfolding R
    by (simp add: D M Y del: re_Y.simps)
qed


lemma strip_id:
  assumes "s \<noteq> []" "\<not> is_space (hd s)" "\<not> is_space (last s)"
  shows "strip s = s"
proof -
  have 1: "dropWhile is_space s = s" using assms(1,2) by (cases s) simp_all
  have "rev s \<noteq> []" "\<not> is_space (hd (rev s))" using assms(1,3) by (simp_all add: hd_rev)
  then have 2: "dropWhile is_space (rev s) = rev s" by (cases "rev s") simp_all
  show ?thesis by (simp add: strip_def 1 2)
qed

lemma render_shapes:
  assumes "valid_date d"
  shows "\<exists>a1 a2 b1 b2 c1 c2 c3 c4.
     list_all is_digit [a1, a2, b1, b2, c1, c2, c3, c4]
     \<and> strftime_Ymd d = [c1, c2, c3, c4, CHR ''-'', b1, b2, CHR ''-'', a1, a2]
     \<and> (\<forall>sep. render_dmY sep d = [a1, a2, sep, b1, b2, sep, c1, c2, c3, c4])"
proof -
  have b: "day d < 100" "month d < 100" "year d < 10000"
    using assms days_in_month_le[of "year d" "month d"] by (simp_all add: valid_date_def)
  from pad2_digits[OF b(1)] obtain a1 a2 where
    dd: "pad2 (day d) = [a1, a2]" "is_digit a1" "is_digit a2" by blast
  from pad2_digits[OF b(2)] obtain b1 b2 where
    mm: "pad2 (month d) = [b1, b2]" "is_digit b1" "is_digit b2" by blast
  from pad4_digits[OF b(3)] obtain c1 c2 c3 c4 where
    yy: "pad4 (year d) = [c1, c2, c3, c4]" "is_digit c1" "is_digit c2" "is_digit c3" "is_digit c4"
    by blast
  show ?thesis
    by (rule exI[of _ a1], rule exI[of _ a2], rule exI[of _ b1], rule exI[of _ b2],
        rule exI[of _ c1], rule exI[of _ c2], rule exI[of _ c3], rule exI[of _ c4])
       (simp add: strftime_Ymd_def render_dmY_def dd mm yy)
qed

lemma strip_renders:
  assumes "valid_date d" "\<not> is_space sep"
  shows "strip (strftime_Ymd d) = strftime_Ymd d" "strip (render_dmY sep d) = render_dmY sep d"
proof -
  from render_shapes[OF assms(1)] obtain a1 a2 b1 b2 c1 c2 c3 c4 where
    s: "list_all is_digit [a1, a2, b1, b2, c1, c2, c3, c4]"
       "strftime_Ymd d = [c1, c2, c3, c4, CHR ''-'', b1, b2, CHR ''-'', a1, a2]"
       "render_dmY sep d = [a1, a2, sep, b1, b2, sep, c1, c2, c3, c4]" by blast
  show "strip (strftime_Ymd d) = strftime_Ymd d"
    unfolding s(2) using s(1) by (intro strip_id) (simp_all add: digit_not_space)
  show "strip (render_dmY sep d) = render_dmY sep d"
    unfolding s(3) using s(1) by (intro strip_id) (simp_all add: digit_not_space)
qed

lemma Ymd_fails_on_dmY:
  assumes "valid_date d" "\<not> is_digit sep"
  shows "strptime_date Ymd_dash (render_dmY sep d) = Inl ValueError"
proof -
  from render_shapes[OF assms(1)] obtain a1 a2 b1 b2 c1 c2 c3 c4 where
    s: "render_dmY sep d = [a1, a2, sep, b1, b2, sep, c1, c2, c3, c4]" by blast
  have "re_Y (render_dmY sep d) = []" unfolding s using assms(2) by simp
  then show ?thesis by (simp add: strptime_date_def)
qed

lemma slash_fails_on_dash:
  assumes "valid_date d"
  shows "strptime_date dmY_slash (render_dmY CHR ''-'' d) = Inl ValueError"
proof -
  from render_shapes[OF assms(1)] obtain a1 a2 b1 b2 c1 c2 c3 c4 where
    dg: "list_all is_digit [a1, a2, b1, b2, c1, c2, c3, c4]" and
    s: "render_dmY CHR ''-'' d = [a1, a2, CHR ''-'', b1, b2, CHR ''-'', c1, c2, c3, c4]" by blast
  have a2: "a2 \<noteq> CHR ''/''" using dg by (auto simp: is_digit_def)
  have "dmY_matches CHR ''/'' (render_dmY CHR ''-'' d) = []"
    unfolding s dmY_matches_def
  proof (rule bind_all_Nil)
    fix x assume x: "x \<in> set (re_d [a1, a2, CHR ''-'', b1, b2, CHR ''-'', c1, c2, c3, c4])"
    obtain v r where xv: "x = (v, r)" by (cases x)
    from re_d_rest[OF x[unfolded xv]] have "lit CHR ''/'' r = []" using a2 by auto
    then show "(case x of (d, r1) \<Rightarrow> List.bind (lit CHR ''/'' r1) (\<lambda>r2.
         List.bind (re_m r2) (\<lambda>(m, r3).
           List.bind (lit CHR ''/'' r3) (\<lambda>r4.
             map (\<lambda>(y, r5). (y, m, d, r5)) (re_Y r4))))) = []"
      by (simp add: xv)
  qed
  then show ?thesis by (simp add: strptime_date_def)
qed

lemma pydate_eta: "\<lparr>year = year d, month = month d, day = day d\<rparr> = (d :: pydate)"
  by simp

lemma strptime_date_render:
  assumes "valid_date d"
  shows "strptime_date Ymd_dash (strftime_Ymd d) = Inr d"
    "strptime_date dmY_slash (render_dmY CHR ''/'' d) = Inr d"
    "strptime_date dmY_dash (render_dmY CHR ''-'' d) = Inr d"
proof -
  from Ymd_matches_render[OF assms] obtain ms where
    "date_matches Ymd_dash (strftime_Ymd d) = (year d, month d, day d, []) # ms" by blast
  then show "strptime_date Ymd_dash (strftime_Ymd d) = Inr d"
    using assms by (simp add: strptime_date_def pydate_eta del: date_matches.simps)
  from dmY_matches_render[OF assms, of "CHR ''/''"] obtain ms where
    "dmY_matches CHR ''/'' (render_dmY CHR ''/'' d) = (year d, month d, day d, []) # ms" by blast
  then show "strptime_date dmY_slash (render_dmY CHR ''/'' d) = Inr d"
    using assms by (simp add: strptime_date_def pydate_eta)
  from dmY_matches_render[OF assms, of "CHR ''-''"] obtain ms where
    "dmY_matches CHR ''-'' (render_dmY CHR ''-'' d) = (year d, month d, day d, []) # ms" by blast
  then show "strptime_date dmY_dash (render_dmY CHR ''-'' d) = Inr d"
    using assms by (simp add: strptime_date_def pydate_eta)
qed

lemma strptime_date_error: "strptime_date fmt s = Inl e \<Longrightarrow> e = ValueError"
  by (auto simp: strptime_date_def split: list.splits if_splits)

lemma try_date_formats_total: "\<exists>r. try_date_formats fmts s today = Inr r"
proof (induction fmts)
  case Nil
  show ?case by simp
next
  case (Cons fmt fmts)
  show ?case
  proof (cases "strptime_date fmt s")
    case (Inl e)
    with strptime_date_error[OF Inl] Cons show ?thesis by simp
  next
    case (Inr d)
    then show ?thesis by simp
  qed
qed

lemma try_date_formats_none:
  "list_all (\<lambda>fmt. isl (strptime_date fmt s)) fmts \<Longrightarrow> try_date_formats fmts s today = Inr today"
proof (induction fmts)
  case Nil
  show ?case by simp
next
  case (Cons fmt fmts)
  then obtain e where e: "strptime_date fmt s = Inl e" by (cases "strptime_date fmt s") auto
  with strptime_date_error[OF e] Cons show ?case by simp
qed

text \<open>
  Claim C8.  \<open>parse_date_str\<close> reads back every calendar date (years 1 to 9999) from each
  of its three renderings, \<open>YYYY-MM-DD\<close> (the canonical form), \<open>DD/MM/YYYY\<close> and
  \<open>DD-MM-YYYY\<close>, with the year written with four digits.  A missing value, the empty
  text and any text that none of the three formats parses give today's date, and the
  function never raises.
\<close>

theorem parse_date_str_spec:
  "(valid_date d \<longrightarrow>
      parse_date_str today (Some (strftime_Ymd d)) = Inr d
      \<and> parse_date_str today (Some (render_dmY CHR ''/'' d)) = Inr d
      \<and> parse_date_str today (Some (render_dmY CHR ''-'' d)) = Inr d)
   \<and> parse_date_str today None = Inr today
   \<and> parse_date_str today (Some []) = Inr today
   \<and> (list_all (\<lambda>fmt. isl (strptime_date fmt (strip text))) date_formats \<longrightarrow>
        parse_date_str today (Some text) = Inr today)
   \<and> (\<exists>r. parse_date_str today v = Inr r)"
proof (intro conjI impI)
  assume v: "valid_date d"
  have sl: "\<not> is_space CHR ''/''" "\<not> is_space CHR ''-''" "\<not> is_digit CHR ''/''" "\<not> is_digit CHR ''-''"
    by (simp_all add: is_space_def is_digit_def)
  show "parse_date_str today (Some (strftime_Ymd d)) = Inr d"
    by (simp add: parse_date_str_def date_formats_def strip_renders(1)[OF v sl(1)]
        strptime_date_render(1)[OF v])
  show "parse_date_str today (Some (render_dmY CHR ''/'' d)) = Inr d"
    by (simp add: parse_date_str_def date_formats_def strip_renders(2)[OF v sl(1)]
        Ymd_fails_on_dmY[OF v sl(3)] strptime_date_render(2)[OF v])
  show "parse_date_str today (Some (render_dmY CHR ''-'' d)) = Inr d"
    by (simp add: parse_date_str_def date_formats_def strip_renders(2)[OF v sl(2)]
        Ymd_fails_on_dmY[OF v sl(4)] slash_fails_on_dash[OF v] strptime_date_render(3)[OF v])
next
  show "parse_date_str today None = Inr today" by (simp add: parse_date_str_def)
next
  show "parse_date_str today (Some []) = Inr today"
    by (simp add: parse_date_str_def date_formats_def strip_def strptime_date_def dmY_matches_def
        re_d_def re_m_def)
next
  assume "list_all (\<lambda>fmt. isl (strptime_date fmt (strip text))) date_formats"
  then show "parse_date_str today (Some text) = Inr today"
    by (simp add: parse_date_str_def try_date_formats_none)
next
  show "\<exists>r. parse_date_str today v = Inr r"
    by (cases v) (simp_all add: parse_date_str_def try_date_formats_total)
qed

theorem parse_date_str_spec_witness:
  "valid_date \<lparr>year = 2024, month = 6, day = 1\<rparr>
   \<and> parse_date_str \<lparr>year = 2026, month = 11, day = 4\<rparr> (Some ''2024-06-01'')
       = Inr \<lparr>year = 2024, month = 6, day = 1\<rparr>
   \<and> parse_date_str \<lparr>year = 2026, month = 11, day = 4\<rparr> (Some ''01/06/2024'')
       = Inr \<lparr>year = 2024, month = 6, day = 1\<rparr>
   \<and> parse_date_str \<lparr>year = 2026, month = 11, day = 4\<rparr> (Some ''01-06-2024'')
       = Inr \<lparr>year = 2024, month = 6, day = 1\<rparr>
   \<and> list_all (\<lambda>fmt. isl (strptime_date fmt (strip ''31/02/2024''))) date_formats
   \<and> parse_date_str \<lparr>year = 2026, month = 11, day = 4\<rparr> (Some ''31/02/2024'')
       = Inr \<lparr>year = 2026, month = 11, day = 4\<rparr>"
proof -
  have v: "valid_date \<lparr>year = 2024, month = 6, day = 1\<rparr>"
    by (simp add: valid_date_def days_in_month_def)
  have n: "list_all (\<lambda>fmt. isl (strptime_date fmt (strip ''31/02/2024''))) date_formats"
    by (simp add: date_formats_def strip_def is_space_def strptime_date_def dmY_matches_def
        re_d_def re_m_def in_range_def is_digit_def digit_val_def valid_date_def days_in_month_def
        is_leap_def)
  have r: "strftime_Ymd \<lparr>year = 2024, month = 6, day = 1\<rparr> = ''2024-06-01''"
    "render_dmY CHR ''/'' \<lparr>year = 2024, month = 6, day = 1\<rparr> = ''01/06/2024''"
    "render_dmY CHR ''-'' \<lparr>year = 2024, month = 6, day = 1\<rparr> = ''01-06-2024''"
    by (simp_all add: strftime_Ymd_def render_dmY_def pad2_def pad4_def digit_char_def)
  show ?thesis
    using parse_date_str_spec[of "\<lparr>year = 2024, month = 6, day = 1\<rparr>"
        "\<lparr>year = 2026, month = 11, day = 4\<rparr>" "''31/02/2024''" None] v n
    unfolding r by blast
qed

section \<open>Loading the table\<close>

lemma distinct_COLUMNS: "distinct COLUMNS"
  by (simp add: COLUMNS_def)


lemma row_get_map: "c \<in> set cols \<Longrightarrow> row_get cols (map g cols) c = g c"
  by (simp add: row_get_def map_of_zip_map)

lemma row_get_append:
  assumes "length r = length cols"
  shows "row_get (cols @ new) (r @ replicate (length new) v) c =
         (if c \<in> set cols then row_get cols r c else if c \<in> set new then v else NaN)"
proof -
  have z: "zip (cols @ new) (r @ replicate (length new) v) = zip cols r @ zip new (replicate (length new) v)"
    using assms by simp
  have d: "c \<in> set cols \<Longrightarrow> \<exists>x. map_of (zip cols r) c = Some x"
    using assms by (metis map_of_zip_is_Some)
  have n: "c \<notin> set cols \<Longrightarrow> map_of (zip cols r) c = None"
    using assms by (simp add: map_of_zip_is_None)
  have m: "map_of (zip new (replicate (length new) v)) c = (if c \<in> set new then Some v else None)"
    by (induction new) auto
  show ?thesis
    unfolding row_get_def z map_of_append
    using d n m by (auto simp: map_add_def split: option.splits)
qed

text \<open>What the back-fill loop does for any list of distinct column names.\<close>

lemma backfill_fold:
  assumes "distinct cs"
  shows "fold (\<lambda>col df. if col \<notin> set (columns df) then set_column df col (Str []) else df) cs df =
     df\<lparr>columns := columns df @ filter (\<lambda>c. c \<notin> set (columns df)) cs,
        rows := map (\<lambda>(l, r). (l, r @ replicate (length (filter (\<lambda>c. c \<notin> set (columns df)) cs)) (Str [])))
                  (rows df)\<rparr>"
  using assms
proof (induction cs arbitrary: df)
  case Nil
  show ?case by (simp add: case_prod_unfold)
next
  case (Cons c cs)
  then have d: "distinct cs" and nc: "c \<notin> set cs" by simp_all
  show ?case
  proof (cases "c \<in> set (columns df)")
    case True
    then show ?thesis using Cons.IH[OF d, of df] by simp
  next
    case False
    let ?df1 = "set_column df c (Str [])"
    define F where "F = filter (\<lambda>x. x \<notin> set (columns df)) cs"
    have c1: "columns ?df1 = columns df @ [c]" using False by (simp add: set_column_def)
    have r1: "rows ?df1 = map (\<lambda>(l, r). (l, r @ [Str []])) (rows df)"
      using False by (simp add: set_column_def)
    have st: "?df1 = df\<lparr>columns := columns df @ [c], rows := map (\<lambda>(l, r). (l, r @ [Str []])) (rows df)\<rparr>"
      using False by (simp add: set_column_def)
    have f: "filter (\<lambda>x. x \<notin> set (columns ?df1)) cs = F"
      unfolding c1 F_def using nc by (intro filter_cong) auto
    have g: "filter (\<lambda>x. x \<notin> set (columns df)) (c # cs) = c # F"
      unfolding F_def using False by simp
    have IH: "fold (\<lambda>col df. if col \<notin> set (columns df) then set_column df col (Str []) else df) cs ?df1 =
       ?df1\<lparr>columns := columns ?df1 @ F,
            rows := map (\<lambda>(l, r). (l, r @ replicate (length F) (Str []))) (rows ?df1)\<rparr>"
      using Cons.IH[OF d, of ?df1] unfolding f .
    have "fold (\<lambda>col df. if col \<notin> set (columns df) then set_column df col (Str []) else df) (c # cs) df =
       fold (\<lambda>col df. if col \<notin> set (columns df) then set_column df col (Str []) else df) cs ?df1"
      using False by simp
    also have "\<dots> = df\<lparr>columns := columns df @ c # F,
        rows := map (\<lambda>(l, r). (l, r @ replicate (length (c # F)) (Str []))) (rows df)\<rparr>"
      unfolding IH c1 r1 unfolding st
      by (simp add: case_prod_unfold comp_def)
    finally show ?thesis unfolding g .
  qed
qed

lemma backfill_eq:
  "backfill df =
     df\<lparr>columns := columns df @ filter (\<lambda>c. c \<notin> set (columns df)) COLUMNS,
        rows := map (\<lambda>(l, r). (l, r @ replicate (length (filter (\<lambda>c. c \<notin> set (columns df)) COLUMNS)) (Str [])))
                  (rows df)\<rparr>"
  unfolding backfill_def by (rule backfill_fold[OF distinct_COLUMNS])

lemma read_csv_shape:
  assumes "read_csv f = Inr d"
  shows "columns d = header f" "length (rows d) = length (body f)"
    "map fst (rows d) = [0..<length (body f)]"
    "\<And>l r. (l, r) \<in> set (rows d) \<Longrightarrow> length r = length (header f)"
proof -
  from assms have d: "d = \<lparr>columns = header f,
       rows = map (\<lambda>i. (i, map (\<lambda>col. col ! i)
                 (map (\<lambda>j. convert_column (map (\<lambda>line. line ! j) (map (pad_line (length (header f))) (body f))))
                      [0..<length (header f)])))
              [0..<length (map (pad_line (length (header f))) (body f))]\<rparr>"
    by (simp add: read_csv_def Let_def split: if_splits)
  show "columns d = header f" by (subst d) simp
  show "length (rows d) = length (body f)" by (subst d) simp
  show "map fst (rows d) = [0..<length (body f)]" by (subst d) (simp add: comp_def)
  show "\<And>l r. (l, r) \<in> set (rows d) \<Longrightarrow> length r = length (header f)"
    by (subst (asm) d) auto
qed

lemma load_data_body_missing: "load_data_body None = Inr (empty_frame COLUMNS)"
proof -
  have "backfill (empty_frame COLUMNS) = empty_frame COLUMNS"
    unfolding backfill_eq by (simp add: empty_frame_def)
  then show ?thesis
    by (simp add: load_data_body_def select_columns_def empty_frame_def list_all_iff)
qed

lemma load_data_body_read:
  assumes "read_csv f = Inr d"
  shows "\<exists>df. load_data_body (Some f) = Inr df \<and> columns df = COLUMNS
           \<and> map fst (rows df) = map fst (rows d)
           \<and> list_all (\<lambda>(l, r). length r = length COLUMNS) (rows df)
           \<and> list_all (\<lambda>c. column_values df c =
                 (if c \<in> set (header f) then column_values d c
                  else replicate (length (rows d)) (Str []))) COLUMNS"
proof -
  define new where "new = filter (\<lambda>c. c \<notin> set (header f)) COLUMNS"
  define bf where "bf = backfill d"
  note sh = read_csv_shape[OF assms]
  have cb: "columns bf = header f @ new"
    and rb: "rows bf = map (\<lambda>(l, r). (l, r @ replicate (length new) (Str []))) (rows d)"
    unfolding bf_def backfill_eq new_def sh(1) by simp_all
  have all: "list_all (\<lambda>c. c \<in> set (columns bf)) COLUMNS"
    unfolding cb new_def by (auto simp: list_all_iff)
  define df where "df = \<lparr>columns = COLUMNS,
     rows = map (\<lambda>(l, r). (l, map (row_get (columns bf) r) COLUMNS)) (rows bf)\<rparr>"
  have L: "load_data_body (Some f) = Inr df"
    using all by (simp add: load_data_body_def assms select_columns_def bf_def df_def)
  have 1: "columns df = COLUMNS" by (simp add: df_def)
  have 2: "map fst (rows df) = map fst (rows d)"
    by (simp add: df_def rb comp_def case_prod_unfold)
  have 3: "list_all (\<lambda>(l, r). length r = length COLUMNS) (rows df)"
    by (simp add: df_def list_all_iff case_prod_unfold)
  have 4: "column_values df c =
      (if c \<in> set (header f) then column_values d c else replicate (length (rows d)) (Str []))"
    if c: "c \<in> set COLUMNS" for c
  proof -
    have "column_values df c = map (\<lambda>(l, r). row_get (columns bf) r c) (rows bf)"
      by (simp add: column_values_def df_def comp_def case_prod_unfold row_get_map[OF c])
    also have "\<dots> = map (\<lambda>(l, r). row_get (header f @ new) (r @ replicate (length new) (Str [])) c) (rows d)"
      by (simp add: cb rb comp_def case_prod_unfold)
    also have "\<dots> = map (\<lambda>(l, r). if c \<in> set (header f) then row_get (header f) r c else Str []) (rows d)"
    proof (rule map_cong[OF refl])
      fix x assume x: "x \<in> set (rows d)"
      obtain l r where xr: "x = (l, r)" by (cases x)
      have len: "length r = length (header f)" using sh(4) x xr by simp
      have "c \<notin> set (header f) \<Longrightarrow> c \<in> set new" using c by (simp add: new_def)
      then show "(case x of (l, r) \<Rightarrow> row_get (header f @ new) (r @ replicate (length new) (Str [])) c)
          = (case x of (l, r) \<Rightarrow> if c \<in> set (header f) then row_get (header f) r c else Str [])"
        by (simp add: xr row_get_append[OF len])
    qed
    also have "\<dots> = (if c \<in> set (header f) then column_values d c else replicate (length (rows d)) (Str []))"
      by (simp add: column_values_def sh(1) case_prod_unfold map_replicate_const)
    finally show ?thesis .
  qed
  have 5: "list_all (\<lambda>c. column_values df c =
                 (if c \<in> set (header f) then column_values d c
                  else replicate (length (rows d)) (Str []))) COLUMNS"
    unfolding list_all_iff using 4 by blast
  show ?thesis using L 1 2 3 5 by blast
qed

text \<open>
  Claim C5.  When the file does not exist, \<open>load_data\<close> returns the empty table with the
  canonical columns.  When the file exists and \<open>read_csv\<close> reads it, \<open>load_data\<close>
  returns a table with exactly the canonical columns in the canonical order and the rows
  of the file in their order; a canonical column the file has keeps the values read, and
  one the file lacks holds the empty text in every row.  An error of \<open>read_csv\<close> is the
  only way \<open>load_data\<close> fails.
\<close>

theorem load_data_body_spec:
  "load_data_body None = Inr (empty_frame COLUMNS)
   \<and> (case read_csv f of
        Inl e \<Rightarrow> load_data_body (Some f) = Inl e
      | Inr d \<Rightarrow>
          (\<exists>df. load_data_body (Some f) = Inr df \<and> columns df = COLUMNS
             \<and> map fst (rows df) = map fst (rows d)
             \<and> list_all (\<lambda>(l, r). length r = length COLUMNS) (rows df)
             \<and> list_all (\<lambda>c. column_values df c =
                   (if c \<in> set (header f) then column_values d c
                    else replicate (length (rows d)) (Str []))) COLUMNS))"
proof (cases "read_csv f")
  case (Inl e)
  then have "load_data_body (Some f) = Inl e" by (simp add: load_data_body_def)
  with Inl show ?thesis by (simp add: load_data_body_missing)
next
  case (Inr d)
  with load_data_body_read[OF Inr] show ?thesis by (simp add: load_data_body_missing)
qed

theorem load_data_body_spec_witness:
  "\<exists>df. load_data_body (Some \<lparr>header = [''espece'', ''date''],
                               body = [[FText ''Bar'', FText ''2024-06-01'']]\<rparr>) = Inr df
     \<and> columns df = COLUMNS
     \<and> column_values df ''date'' = [Str ''2024-06-01'']
     \<and> column_values df ''espece'' = [Str ''Bar'']
     \<and> column_values df ''heure'' = [Str []]
     \<and> column_values df ''photo_fichier'' = [Str []]"
proof -
  let ?f = "\<lparr>header = [''espece'', ''date''], body = [[FText ''Bar'', FText ''2024-06-01'']]\<rparr>"
  let ?df = "\<lparr>columns = COLUMNS,
     rows = [(0, [Str ''2024-06-01'', Str [], Str ''Bar'', Str [], Str [], Str [], Str [], Str [],
                  Str [], Str [], Str [], Str [], Str []])]\<rparr>"
  have b: "load_data_body (Some ?f) = Inr ?df"
    by code_simp
  obtain d where r: "read_csv ?f = Inr d"
    by (cases "read_csv ?f") (use b in \<open>simp_all add: load_data_body_def\<close>)
  from load_data_body_spec[of ?f] obtain df where
    df: "load_data_body (Some ?f) = Inr df" "columns df = COLUMNS"
    unfolding r by auto
  from df(1) b have e: "df = ?df" by simp
  have v: "column_values ?df ''date'' = [Str ''2024-06-01'']"
    "column_values ?df ''espece'' = [Str ''Bar'']"
    "column_values ?df ''heure'' = [Str []]"
    "column_values ?df ''photo_fichier'' = [Str []]"
    by (simp_all add: column_values_def row_get_def COLUMNS_def)
  show ?thesis using df v unfolding e by blast
qed

section \<open>Filters\<close>

lemma rows_apply_filters:
  "rows (apply_filters df ef sf lf) =
     filter (\<lambda>(l, r). (ef = [] \<or> row_get (columns df) r ''espece'' \<in> set ef)
                     \<and> (sf = [] \<or> row_get (columns df) r ''spot'' \<in> set sf)
                     \<and> (lf = [] \<or> row_get (columns df) r ''nom_leurre'' \<in> set lf)) (rows df)"
  by (auto simp: apply_filters_def filter_isin_def Let_def case_prod_unfold intro: filter_cong)

lemma columns_apply_filters: "columns (apply_filters df ef sf lf) = columns df"
  by (simp add: apply_filters_def filter_isin_def Let_def)

text \<open>
  Claim C6.  The filters of the page keep exactly the rows whose species, spot and lure
  name are each among the values selected for that filter, a filter with nothing selected
  accepting every row; the columns are unchanged.  With nothing selected at all the table
  is returned as it is, and with only the species \<open>Bar\<close> selected the result holds exactly
  the rows whose species is \<open>Bar\<close>.
\<close>

theorem apply_filters_spec:
  "columns (apply_filters df ef sf lf) = columns df
   \<and> rows (apply_filters df ef sf lf) =
       filter (\<lambda>(l, r). (ef = [] \<or> row_get (columns df) r ''espece'' \<in> set ef)
                       \<and> (sf = [] \<or> row_get (columns df) r ''spot'' \<in> set sf)
                       \<and> (lf = [] \<or> row_get (columns df) r ''nom_leurre'' \<in> set lf)) (rows df)
   \<and> apply_filters df [] [] [] = df
   \<and> rows (apply_filters df [Str ''Bar''] [] []) =
       filter (\<lambda>(l, r). row_get (columns df) r ''espece'' = Str ''Bar'') (rows df)"
proof -
  have "apply_filters df [] [] [] = df" by (simp add: apply_filters_def)
  moreover have "rows (apply_filters df [Str ''Bar''] [] []) =
       filter (\<lambda>(l, r). row_get (columns df) r ''espece'' = Str ''Bar'') (rows df)"
    by (simp add: rows_apply_filters)
  ultimately show ?thesis
    using rows_apply_filters[of df ef sf lf] columns_apply_filters[of df ef sf lf] by simp
qed

section \<open>Deleting a row\<close>

text \<open>A table whose rows are labelled 0, 1, 2, ...: what \<open>load_data\<close> returns.\<close>

lemma filter_range_index:
  assumes "map fst rs = [0..<length rs]" "i < length rs"
  shows "filter (\<lambda>(l, r). l \<noteq> i) rs = take i rs @ drop (Suc i) rs"
    and "filter (\<lambda>(l, r). l = i) rs = [rs ! i]"
proof -
  have rs: "rs = take i rs @ rs ! i # drop (Suc i) rs"
    using assms(2) by (simp add: id_take_nth_drop)
  have lab: "fst (rs ! j) = j" if "j < length rs" for j
    using assms(1) that by (metis nth_map nth_upt add_0 length_map)
  have a: "\<And>x. x \<in> set (take i rs) \<Longrightarrow> fst x < i"
  proof -
    fix x assume "x \<in> set (take i rs)"
    then obtain j where "j < i" "j < length rs" "x = rs ! j"
      by (auto simp: in_set_conv_nth)
    then show "fst x < i" using lab by simp
  qed
  have b: "\<And>x. x \<in> set (drop (Suc i) rs) \<Longrightarrow> i < fst x"
  proof -
    fix x assume "x \<in> set (drop (Suc i) rs)"
    then obtain j where "j < length rs - Suc i" "x = rs ! (Suc i + j)"
      by (auto simp: in_set_conv_nth)
    then show "i < fst x" using lab[of "Suc i + j"] by simp
  qed
  have c: "fst (rs ! i) = i" using lab assms(2) by simp
  have f1: "filter (\<lambda>p. fst p \<noteq> i) (take i rs) = take i rs"
    by (rule filter_True) (use a in auto)
  have f2: "filter (\<lambda>p. fst p \<noteq> i) (drop (Suc i) rs) = drop (Suc i) rs"
    by (rule filter_True) (use b in auto)
  have g1: "filter (\<lambda>p. fst p = i) (take i rs) = []"
    by (rule filter_False) (use a in auto)
  have g2: "filter (\<lambda>p. fst p = i) (drop (Suc i) rs) = []"
    by (rule filter_False) (use b in auto)
  have "filter (\<lambda>p. fst p \<noteq> i) rs = filter (\<lambda>p. fst p \<noteq> i) (take i rs @ rs ! i # drop (Suc i) rs)"
    using arg_cong[OF rs, of "filter (\<lambda>p. fst p \<noteq> i)"] .
  also have "\<dots> = take i rs @ drop (Suc i) rs"
    by (simp only: filter_append filter.simps f1 f2 c) simp
  finally show "filter (\<lambda>(l, r). l \<noteq> i) rs = take i rs @ drop (Suc i) rs"
    by (simp add: case_prod_unfold)
  have "filter (\<lambda>p. fst p = i) rs = filter (\<lambda>p. fst p = i) (take i rs @ rs ! i # drop (Suc i) rs)"
    using arg_cong[OF rs, of "filter (\<lambda>p. fst p = i)"] .
  also have "\<dots> = [rs ! i]"
    by (simp only: filter_append filter.simps g1 g2 c) simp
  finally show "filter (\<lambda>(l, r). l = i) rs = [rs ! i]"
    by (simp add: case_prod_unfold)
qed

lemma load_data_body_range:
  assumes "load_data_body fl = Inr df"
  shows "map fst (rows df) = [0..<length (rows df)]" "columns df = COLUMNS"
proof -
  show "map fst (rows df) = [0..<length (rows df)]"
  proof (cases fl)
    case None
    with assms show ?thesis by (auto simp: load_data_body_missing empty_frame_def)
  next
    case (Some f)
    with assms obtain d where d: "read_csv f = Inr d"
      by (cases "read_csv f") (simp_all add: load_data_body_def)
    from load_data_body_read[OF d] read_csv_shape[OF d] assms Some show ?thesis
      by (metis Inr_inject length_map)
  qed
  show "columns df = COLUMNS"
  proof (cases fl)
    case None
    with assms show ?thesis by (auto simp: load_data_body_missing empty_frame_def)
  next
    case (Some f)
    with assms obtain d where d: "read_csv f = Inr d"
      by (cases "read_csv f") (simp_all add: load_data_body_def)
    from load_data_body_read[OF d] assms Some show ?thesis by auto
  qed
qed

lemma load_data_frame:
  assumes "load_data w = Inr (df, w1)"
  shows "csv w1 = csv w" "locked w1 = locked w" "photos w1 = photos w" "cache w1 = Some df"
  using assms by (auto simp: load_data_def split: option.splits sum.splits)

text \<open>
  Claim C9.  Deleting the row at position \<open>i\<close> of the loaded table (whose rows are
  labelled 0, 1, 2, ... as \<open>load_data\<close> returns them, see \<open>load_data_body_range\<close>)
  removes exactly that row: the rows before and after it remain, in their order, and are
  labelled 0, 1, 2, ... again; the columns are unchanged.  That table is saved (the file
  is replaced by it unless it cannot be written, which is reported), the cache is
  cleared, and the photo store is exactly as before: no photo file is deleted.
\<close>

theorem main_delete_spec:
  assumes "load_data w = Inr (df, w1)"
    and "map fst (rows df) = [0..<length (rows df)]"
    and "i < length (rows df)"
  shows "\<exists>df2 w2 msgs. main_delete i w = Inr (df2, w2, msgs)
      \<and> columns df2 = columns df
      \<and> map snd (rows df2) = take i (map snd (rows df)) @ drop (Suc i) (map snd (rows df))
      \<and> map fst (rows df2) = [0..<length (rows df) - 1]
      \<and> photos w2 = photos w
      \<and> csv w2 = (if locked w then csv w else Some (to_csv df2))
      \<and> msgs = (if locked w then [ErrorCannotWrite, SuccessDeleted] else [SuccessDeleted])
      \<and> cache w2 = None"
proof -
  note fr = load_data_frame[OF assms(1)]
  have mem: "i \<in> fst ` set (rows df)"
  proof -
    have "i \<in> set (map fst (rows df))" unfolding assms(2) using assms(3) by simp
    then show ?thesis by simp
  qed
  define df1 where "df1 = df\<lparr>rows := take i (rows df) @ drop (Suc i) (rows df)\<rparr>"
  have d1: "drop_index df i = Inr df1"
    using mem filter_range_index(1)[OF assms(2,3)] by (simp add: drop_index_def df1_def)
  define df2 where "df2 = reset_index df1"
  have len: "length (rows df1) = length (rows df) - 1"
    using assms(3) by (simp add: df1_def)
  have c2: "columns df2 = columns df" by (simp add: df2_def reset_index_def df1_def)
  have s2: "map snd (rows df2) = take i (map snd (rows df)) @ drop (Suc i) (map snd (rows df))"
    by (simp add: df2_def reset_index_def df1_def take_map drop_map)
  have l2: "map fst (rows df2) = [0..<length (rows df) - 1]"
    by (simp add: df2_def reset_index_def len)
  show ?thesis
  proof (cases "locked w")
    case True
    have "main_delete i w = Inr (df2, cache_clear w1, [ErrorCannotWrite, SuccessDeleted])"
      using True fr(2) by (simp add: main_delete_def assms(1) d1 df2_def save_data_def Let_def)
    then show ?thesis using True c2 s2 l2 fr by (simp add: cache_clear_def)
  next
    case False
    have "main_delete i w = Inr (df2, cache_clear (w1\<lparr>csv := Some (to_csv df2)\<rparr>), [SuccessDeleted])"
      using False fr(2) by (simp add: main_delete_def assms(1) d1 df2_def save_data_def Let_def)
    then show ?thesis using False c2 s2 l2 fr by (simp add: cache_clear_def)
  qed
qed

theorem main_delete_spec_witness:
  "\<exists>df w1 df2 w2 msgs.
     load_data \<lparr>csv = Some \<lparr>header = [''espece'', ''photo_fichier''],
                           body = [[FText ''Bar'', FText ''photos/a.jpg''],
                                   [FText ''Lieu'', FText ''photos/b.jpg''],
                                   [FText ''Sar'', FText '''']]\<rparr>,
                locked = False, photos = [''photos/a.jpg'' \<mapsto> ''A'', ''photos/b.jpg'' \<mapsto> ''B''], cache = None, open_error = Map.empty\<rparr>
       = Inr (df, w1)
     \<and> map fst (rows df) = [0..<length (rows df)] \<and> 1 < length (rows df)
     \<and> main_delete 1 \<lparr>csv = Some \<lparr>header = [''espece'', ''photo_fichier''],
                           body = [[FText ''Bar'', FText ''photos/a.jpg''],
                                   [FText ''Lieu'', FText ''photos/b.jpg''],
                                   [FText ''Sar'', FText '''']]\<rparr>,
                locked = False, photos = [''photos/a.jpg'' \<mapsto> ''A'', ''photos/b.jpg'' \<mapsto> ''B''], cache = None, open_error = Map.empty\<rparr>
       = Inr (df2, w2, msgs)
     \<and> column_values df2 ''espece'' = [Str ''Bar'', Str ''Sar'']
     \<and> photos w2 ''photos/b.jpg'' = Some ''B''
     \<and> msgs = [SuccessDeleted]"
proof -
  let ?f = "\<lparr>header = [''espece'', ''photo_fichier''],
              body = [[FText ''Bar'', FText ''photos/a.jpg''],
                      [FText ''Lieu'', FText ''photos/b.jpg''],
                      [FText ''Sar'', FText []]]\<rparr>"
  let ?w = "\<lparr>csv = Some ?f, locked = False,
              photos = [''photos/a.jpg'' \<mapsto> ''A'', ''photos/b.jpg'' \<mapsto> ''B''], cache = None, open_error = Map.empty\<rparr>"
  let ?df = "\<lparr>columns = COLUMNS,
     rows = [(0, [Str [], Str [], Str ''Bar'', Str [], Str [], Str [], Str [], Str [], Str [],
                  Str [], Str [], Str [], Str ''photos/a.jpg'']),
             (1, [Str [], Str [], Str ''Lieu'', Str [], Str [], Str [], Str [], Str [], Str [],
                  Str [], Str [], Str [], Str ''photos/b.jpg'']),
             (2, [Str [], Str [], Str ''Sar'', Str [], Str [], Str [], Str [], Str [], Str [],
                  Str [], Str [], Str [], NaN])]\<rparr>"
  have b: "load_data_body (Some ?f) = Inr ?df"
    by code_simp
  have l: "load_data ?w = Inr (?df, ?w\<lparr>cache := Some ?df\<rparr>)"
    by (simp add: load_data_def b)
  have rg: "map fst (rows ?df) = [0..<length (rows ?df)]"
    by (simp add: upt_rec[of 0] upt_rec[of 1] upt_rec[of 2])
  have len: "1 < length (rows ?df)" by simp
  from main_delete_spec[OF l rg len] obtain df2 w2 msgs where
    m: "main_delete 1 ?w = Inr (df2, w2, msgs)" "columns df2 = COLUMNS"
      "map snd (rows df2) = take 1 (map snd (rows ?df)) @ drop (Suc 1) (map snd (rows ?df))"
      "photos w2 = photos ?w" "msgs = [SuccessDeleted]"
    by auto
  have "column_values df2 ''espece'' = map (\<lambda>r. row_get COLUMNS r ''espece'') (map snd (rows df2))"
    by (simp add: column_values_def m(2) comp_def case_prod_unfold)
  then have "column_values df2 ''espece'' = [Str ''Bar'', Str ''Sar'']"
    unfolding m(3) by (simp add: row_get_def COLUMNS_def)
  with l rg len m show ?thesis by auto
qed

section \<open>An invalid time changes nothing\<close>

lemma parse_time_fails_iff:
  "(\<exists>e. parse_time_from_text s = Inl e) = (\<not> is_HHMM (normalise_time s))"
proof (cases "strptime_HM (normalise_time s)")
  case (Inl e)
  then have "\<not> is_HHMM (normalise_time s)" using is_HHMM_strptime by fastforce
  with Inl show ?thesis by (simp add: parse_time_from_text_def)
next
  case (Inr tm)
  with normalise_time_ok[OF Inr] show ?thesis by (simp add: parse_time_from_text_def)
qed

text \<open>
  Claim C4.  When the time entered does not reduce to \<open>HH:MM\<close>, committing the side bar
  form, or the edit form of an existing row, shows the invalid-time error and changes
  nothing: the run ends with the table it loaded, and the file, the photo store (even when
  a photo was uploaded with the form) and the write lock are as before.
\<close>

theorem invalid_time_no_mutation:
  assumes "\<not> is_HHMM (normalise_time (heure_str f))"
    and "load_data w = Inr (df, w1)"
  shows "main_add now f w = Inr (df, w1, [ErrorInvalidTime])
     \<and> (i \<in> fst ` set (rows df) \<longrightarrow> main_edit now i f w = Inr (df, w1, [ErrorInvalidTime]))
     \<and> csv w1 = csv w \<and> photos w1 = photos w \<and> locked w1 = locked w"
proof -
  from assms(1) obtain e where e: "parse_time_from_text (heure_str f) = Inl e"
    using parse_time_fails_iff by blast
  have a: "main_add now f w = Inr (df, w1, [ErrorInvalidTime])"
    by (simp add: main_add_def assms(2) e)
  have b: "main_edit now i f w = Inr (df, w1, [ErrorInvalidTime])" if "i \<in> fst ` set (rows df)"
  proof -
    from that obtain r where "(i, r) \<in> set (rows df)" by auto
    then have "filter (\<lambda>(l, r). l = i) (rows df) \<noteq> []"
      by (auto simp: filter_empty_conv)
    then obtain l r' rs where "filter (\<lambda>(l, r). l = i) (rows df) = (l, r') # rs"
      by (cases "filter (\<lambda>(l, r). l = i) (rows df)") auto
    then show ?thesis by (simp add: main_edit_def assms(2) e)
  qed
  show ?thesis using a b load_data_frame[OF assms(2)] by simp
qed

theorem invalid_time_no_mutation_witness:
  "\<exists>df w1.
     \<not> is_HHMM (normalise_time ''25:99'')
     \<and> load_data \<lparr>csv = Some \<lparr>header = [''espece''], body = [[FText ''Bar'']]\<rparr>, locked = False,
                   photos = Map.empty, cache = None, open_error = Map.empty\<rparr> = Inr (df, w1)
     \<and> 0 \<in> fst ` set (rows df)
     \<and> main_add \<lparr>dt_date = \<lparr>year = 2024, month = 6, day = 1\<rparr>,
                  dt_time = \<lparr>hour = 6, minute = 30\<rparr>, dt_second = 0\<rparr>
          \<lparr>date_prise = \<lparr>year = 2024, month = 6, day = 1\<rparr>, heure_str = ''25:99'',
             espece = ''Lieu'', taille = 50, poids = 2, unite_poids = ''kg'', spot = ''Le Havre'',
             type_leurre = ''Jig'', nom_leurre = [], conditions = [], remis_a_leau = ''Oui'',
             commentaire = [], photo_new = Some \<lparr>upload_name = ''p.jpg'', upload_bytes = ''P''\<rparr>\<rparr>
          \<lparr>csv = Some \<lparr>header = [''espece''], body = [[FText ''Bar'']]\<rparr>, locked = False,
             photos = Map.empty, cache = None, open_error = Map.empty\<rparr>
        = Inr (df, w1, [ErrorInvalidTime])
     \<and> main_edit \<lparr>dt_date = \<lparr>year = 2024, month = 6, day = 1\<rparr>,
                  dt_time = \<lparr>hour = 6, minute = 30\<rparr>, dt_second = 0\<rparr> 0
          \<lparr>date_prise = \<lparr>year = 2024, month = 6, day = 1\<rparr>, heure_str = ''25:99'',
             espece = ''Lieu'', taille = 50, poids = 2, unite_poids = ''kg'', spot = ''Le Havre'',
             type_leurre = ''Jig'', nom_leurre = [], conditions = [], remis_a_leau = ''Oui'',
             commentaire = [], photo_new = Some \<lparr>upload_name = ''p.jpg'', upload_bytes = ''P''\<rparr>\<rparr>
          \<lparr>csv = Some \<lparr>header = [''espece''], body = [[FText ''Bar'']]\<rparr>, locked = False,
             photos = Map.empty, cache = None, open_error = Map.empty\<rparr>
        = Inr (df, w1, [ErrorInvalidTime])
     \<and> csv w1 = Some \<lparr>header = [''espece''], body = [[FText ''Bar'']]\<rparr>
     \<and> photos w1 = Map.empty"
proof -
  let ?f = "\<lparr>header = [''espece''], body = [[FText ''Bar'']]\<rparr>"
  let ?w = "\<lparr>csv = Some ?f, locked = False, photos = Map.empty, cache = None, open_error = Map.empty\<rparr>"
  let ?df = "\<lparr>columns = COLUMNS,
     rows = [(0, [Str [], Str [], Str ''Bar'', Str [], Str [], Str [], Str [], Str [], Str [],
                  Str [], Str [], Str [], Str []])]\<rparr>"
  let ?form = "\<lparr>date_prise = \<lparr>year = 2024, month = 6, day = 1\<rparr>, heure_str = ''25:99'',
             espece = ''Lieu'', taille = 50, poids = 2, unite_poids = ''kg'', spot = ''Le Havre'',
             type_leurre = ''Jig'', nom_leurre = [], conditions = [], remis_a_leau = ''Oui'',
             commentaire = [], photo_new = Some \<lparr>upload_name = ''p.jpg'', upload_bytes = ''P''\<rparr>\<rparr>"
  have h: "\<not> is_HHMM (normalise_time (heure_str ?form))"
    by (simp add: normalise_time_def strip_def is_space_def zfill2_def is_HHMM_def is_digit_def
        digit_val_def)
  have b: "load_data_body (Some ?f) = Inr ?df" by code_simp
  have l: "load_data ?w = Inr (?df, ?w\<lparr>cache := Some ?df\<rparr>)"
    by (simp add: load_data_def b)
  have m: "0 \<in> fst ` set (rows ?df)" by simp
  show ?thesis
    using invalid_time_no_mutation[OF h l, of _ 0] h l m by (intro exI[of _ ?df] exI[of _ "?w\<lparr>cache := Some ?df\<rparr>"]) simp
qed

section \<open>The photo store\<close>

lemma digit_char_mod: "is_digit (digit_char (n mod 10))"
  by (rule digit_char_digit) simp

lemma pad_digits: "list_all is_digit (pad2 n)" "list_all is_digit (pad4 n)"
  by (simp_all add: pad2_def pad4_def digit_char_mod)

lemma digit_not_slash: "is_digit c \<Longrightarrow> c \<noteq> CHR ''/''"
  by (auto simp: is_digit_def)

lemma digits_no_slash: "list_all is_digit s \<Longrightarrow> CHR ''/'' \<notin> set s"
  using digit_not_slash by (auto simp: list_all_iff)

lemma timestamp_no_slash: "CHR ''/'' \<notin> set (timestamp now)"
  by (simp add: timestamp_def digits_no_slash pad_digits)

lemma timestamp_length: "length (timestamp now) = 15"
  by (simp add: timestamp_def pad2_def pad4_def)

lemma replace_spaces_slash: "(CHR ''/'' \<in> set (replace_spaces n)) = (CHR ''/'' \<in> set n)"
  by (auto simp: replace_spaces_def)

lemma replace_spaces_length: "length (replace_spaces n) = length n"
  by (simp add: replace_spaces_def)

lemma replace_spaces_nth:
  "i < length n \<Longrightarrow> replace_spaces n ! i = (if n ! i = CHR '' '' then CHR ''_'' else n ! i)"
  by (simp add: replace_spaces_def)

lemma path_parts_simple:
  assumes "CHR ''/'' \<notin> set s" "2 \<le> length s"
  shows "path_parts s = [s]"
proof -
  have "s \<noteq> []" "s \<noteq> ''.''" using assms(2) by auto
  then show ?thesis by (simp add: path_parts_def split_on_nocolon[OF assms(1)])
qed

lemma path_parts_no_slash: "p \<in> set (path_parts s) \<Longrightarrow> CHR ''/'' \<notin> set p \<and> p \<noteq> [] \<and> p \<noteq> ''.''"
  using split_on_parts[of p "CHR ''/''" s] by (auto simp: path_parts_def)

lemma split_on_hd_prefix:
  "c \<notin> set pre \<Longrightarrow> \<exists>q ps. split_on c (pre @ s) = (pre @ q) # ps"
proof (induction pre)
  case Nil
  show ?case by (cases "split_on c s") auto
next
  case (Cons x pre)
  then obtain q ps where "split_on c (pre @ s) = (pre @ q) # ps" by auto
  with Cons.prems show ?case by auto
qed

lemma path_parts_hd:
  assumes "CHR ''/'' \<notin> set pre" "2 \<le> length pre"
  shows "\<exists>q ps. path_parts (pre @ s) = (pre @ q) # ps"
proof -
  from split_on_hd_prefix[OF assms(1), of s] obtain q ps where
    s: "split_on CHR ''/'' (pre @ s) = (pre @ q) # ps" by blast
  have "pre @ q \<noteq> []" "pre @ q \<noteq> ''.''" using assms(2) by (auto simp: append_eq_Cons_conv)
  then show ?thesis by (auto simp: path_parts_def s)
qed

lemma path_parts_timestamp:
  "\<exists>q ps. path_parts (timestamp now @ ''_'' @ s) = (timestamp now @ ''_'' @ q) # ps"
proof -
  have pre: "CHR ''/'' \<notin> set (timestamp now @ ''_'')" "2 \<le> length (timestamp now @ ''_'')"
    using timestamp_no_slash[of now] by (simp_all add: timestamp_length)
  from path_parts_hd[OF pre, of s] show ?thesis by simp
qed

lemma split_on_join_path:
  "ps \<noteq> [] \<Longrightarrow> \<forall>p\<in>set ps. CHR ''/'' \<notin> set p \<Longrightarrow> split_on CHR ''/'' (join_path ps) = ps"
proof (induction ps rule: join_path.induct)
  case 1
  then show ?case by simp
next
  case (2 p)
  then show ?case by (simp add: split_on_nocolon)
next
  case (3 p q qs)
  have "split_on CHR ''/'' (p @ CHR ''/'' # join_path (q # qs)) = p # split_on CHR ''/'' (join_path (q # qs))"
    using 3(3) by (intro split_on_append) simp
  moreover have "split_on CHR ''/'' (join_path (q # qs)) = q # qs" using 3 by simp
  ultimately show ?case by simp
qed

lemma photo_path_split:
  "split_on CHR ''/'' (join_path (''photos'' # path_parts s)) = ''photos'' # path_parts s"
proof -
  have "\<forall>p\<in>set (''photos'' # path_parts s). CHR ''/'' \<notin> set p"
    using path_parts_no_slash[of _ s] by auto
  then show ?thesis by (intro split_on_join_path) simp_all
qed

lemma photo_path_direct_child:
  "direct_child (join_path (''photos'' # path_parts (timestamp now @ ''_'' @ s)))
     = (length (path_parts (timestamp now @ ''_'' @ s)) = 1)"
proof -
  from path_parts_timestamp[of now s] obtain q ps where
    pp: "path_parts (timestamp now @ ''_'' @ s) = (timestamp now @ ''_'' @ q) # ps" by blast
  have l: "16 \<le> length (timestamp now @ ''_'' @ q)" by (simp add: timestamp_length)
  have "length (timestamp now @ ''_'' @ q) \<noteq> length x" if "length x < 16" for x :: string
    using l that by linarith
  then have "timestamp now @ ''_'' @ q \<noteq> x" if "length x < 16" for x :: string
    using that by blast
  then have ne: "timestamp now @ ''_'' @ q \<noteq> []" "timestamp now @ ''_'' @ q \<noteq> ''.''"
    "timestamp now @ ''_'' @ q \<noteq> ''..''"
    by simp_all
  have sp: "split_on CHR ''/'' (join_path (''photos'' # path_parts (timestamp now @ ''_'' @ s)))
      = ''photos'' # (timestamp now @ ''_'' @ q) # ps"
    using photo_path_split[of "timestamp now @ ''_'' @ s"] unfolding pp .
  have "direct_child (join_path (''photos'' # path_parts (timestamp now @ ''_'' @ s))) = (ps = [])"
    unfolding direct_child_def sp using ne by (cases ps) simp_all
  then show ?thesis by (simp only: pp) simp
qed

lemma photo_path_simple:
  assumes "CHR ''/'' \<notin> set n"
  shows "join_path (''photos'' # path_parts (timestamp now @ ''_'' @ replace_spaces n))
       = ''photos/'' @ timestamp now @ ''_'' @ replace_spaces n"
proof -
  let ?fn = "timestamp now @ ''_'' @ replace_spaces n"
  have "CHR ''/'' \<notin> set ?fn"
    using assms timestamp_no_slash[of now] by (simp add: replace_spaces_slash)
  moreover have "2 \<le> length ?fn" by (simp add: timestamp_length)
  ultimately have "path_parts ?fn = [?fn]" by (rule path_parts_simple)
  then show ?thesis by simp
qed

lemma enregistrer_photo_returns:
  assumes "enregistrer_photo now (Some \<lparr>upload_name = n, upload_bytes = b\<rparr>) w = Inr (ref, w')"
  shows "ref = join_path (''photos'' # path_parts (timestamp now @ ''_'' @ replace_spaces n))"
    and "w' = w\<lparr>photos := (photos w)(ref \<mapsto> b)\<rparr>"
    and "open_error w ref = None"
  using assms by (auto simp: enregistrer_photo_def Let_def split: option.splits)

text \<open>
  Claim C10, as amended.  The sanitization of a photo name replaces each space by an
  underscore and changes nothing else.  Without an upload nothing is stored and the
  reference is empty.  For an upload with the name \<open>n\<close>, when the call returns (the
  operating system has let the file be opened for writing), the reference returned is
  exactly the directory \<open>photos\<close> joined with \<open><YYYYMMDD_HHMMSS>_\<close> followed by \<open>n\<close> with
  each space replaced by an underscore, the join being that of paths, which splits the
  name at \<open>/\<close> and drops empty and \<open>.\<close> parts; the bytes of the upload are the content of
  the file at that path and every other file is as before.  For a name without a path
  separator the reference is the text \<open>photos/<YYYYMMDD_HHMMSS>_<n with spaces replaced>\<close>.
  A path separator in the name is kept, but the reference need not lie outside the
  directory: it is a file directly in \<open>photos\<close> exactly when one part remains after the
  join, as \<open>photo_name_separator_counterexample\<close> below shows for the name \<open>a/\<close>.
\<close>

theorem enregistrer_photo_spec:
  "enregistrer_photo now None w = Inr ([], w)
   \<and> length (replace_spaces n) = length n
   \<and> list_all (\<lambda>i. replace_spaces n ! i = (if n ! i = CHR '' '' then CHR ''_'' else n ! i))
        [0..<length n]
   \<and> (CHR ''/'' \<in> set (replace_spaces n)) = (CHR ''/'' \<in> set n)
   \<and> (enregistrer_photo now (Some \<lparr>upload_name = n, upload_bytes = b\<rparr>) w = Inr (ref, w') \<longrightarrow>
        ref = join_path (''photos'' # path_parts (timestamp now @ ''_'' @ replace_spaces n))
        \<and> w' = w\<lparr>photos := (photos w)(ref \<mapsto> b)\<rparr>
        \<and> (CHR ''/'' \<notin> set n \<longrightarrow> ref = ''photos/'' @ timestamp now @ ''_'' @ replace_spaces n)
        \<and> direct_child ref
            = (length (path_parts (timestamp now @ ''_'' @ replace_spaces n)) = 1))"
proof (intro conjI impI)
  show "enregistrer_photo now None w = Inr ([], w)" by (simp add: enregistrer_photo_def)
  show "length (replace_spaces n) = length n" by (rule replace_spaces_length)
  show "list_all (\<lambda>i. replace_spaces n ! i = (if n ! i = CHR '' '' then CHR ''_'' else n ! i))
        [0..<length n]"
    by (simp add: list_all_iff replace_spaces_nth)
  show "(CHR ''/'' \<in> set (replace_spaces n)) = (CHR ''/'' \<in> set n)"
    by (rule replace_spaces_slash)
next
  assume r: "enregistrer_photo now (Some \<lparr>upload_name = n, upload_bytes = b\<rparr>) w = Inr (ref, w')"
  note e = enregistrer_photo_returns[OF r]
  show "ref = join_path (''photos'' # path_parts (timestamp now @ ''_'' @ replace_spaces n))"
    by (rule e(1))
  show "w' = w\<lparr>photos := (photos w)(ref \<mapsto> b)\<rparr>" by (rule e(2))
  show "ref = ''photos/'' @ timestamp now @ ''_'' @ replace_spaces n" if "CHR ''/'' \<notin> set n"
    unfolding e(1) using that by (rule photo_path_simple)
  show "direct_child ref = (length (path_parts (timestamp now @ ''_'' @ replace_spaces n)) = 1)"
    unfolding e(1) by (rule photo_path_direct_child)
qed

theorem enregistrer_photo_spec_witness:
  "enregistrer_photo
     \<lparr>dt_date = \<lparr>year = 2024, month = 6, day = 1\<rparr>, dt_time = \<lparr>hour = 6, minute = 30\<rparr>,
        dt_second = 5\<rparr>
     (Some \<lparr>upload_name = ''my fish.jpg'', upload_bytes = ''B''\<rparr>)
     \<lparr>csv = None, locked = False, photos = Map.empty, cache = None, open_error = Map.empty\<rparr>
   = Inr (''photos/20240601_063005_my_fish.jpg'',
          \<lparr>csv = None, locked = False,
             photos = [''photos/20240601_063005_my_fish.jpg'' \<mapsto> ''B''],
             cache = None, open_error = Map.empty\<rparr>)
   \<and> CHR ''/'' \<notin> set ''my fish.jpg''
   \<and> ''photos/20240601_063005_my_fish.jpg''
      = ''photos/'' @ timestamp \<lparr>dt_date = \<lparr>year = 2024, month = 6, day = 1\<rparr>,
                                 dt_time = \<lparr>hour = 6, minute = 30\<rparr>, dt_second = 5\<rparr>
        @ ''_'' @ replace_spaces ''my fish.jpg''
   \<and> direct_child ''photos/20240601_063005_my_fish.jpg''"
proof -
  let ?now = "\<lparr>dt_date = \<lparr>year = 2024, month = 6, day = 1\<rparr>,
       dt_time = \<lparr>hour = 6, minute = 30\<rparr>, dt_second = 5\<rparr>"
  let ?w = "\<lparr>csv = None, locked = False, photos = Map.empty, cache = None,
       open_error = Map.empty\<rparr>"
  have n: "CHR ''/'' \<notin> set ''my fish.jpg''" by simp
  have e: "enregistrer_photo ?now (Some \<lparr>upload_name = ''my fish.jpg'', upload_bytes = ''B''\<rparr>) ?w
     = Inr (''photos/20240601_063005_my_fish.jpg'',
            ?w\<lparr>photos := (photos ?w)(''photos/20240601_063005_my_fish.jpg'' \<mapsto> ''B'')\<rparr>)"
    by (simp add: enregistrer_photo_def Let_def timestamp_def pad2_def pad4_def digit_char_def
        replace_spaces_def path_parts_def)
  from enregistrer_photo_spec[of ?now ?w "''my fish.jpg''" "''B''"
      "''photos/20240601_063005_my_fish.jpg''"
      "?w\<lparr>photos := (photos ?w)(''photos/20240601_063005_my_fish.jpg'' \<mapsto> ''B'')\<rparr>"] e n
  have "''photos/20240601_063005_my_fish.jpg''
          = ''photos/'' @ timestamp ?now @ ''_'' @ replace_spaces ''my fish.jpg''"
    and "direct_child ''photos/20240601_063005_my_fish.jpg''
          = (length (path_parts (timestamp ?now @ ''_'' @ replace_spaces ''my fish.jpg'')) = 1)"
    by blast+
  then show ?thesis
    using e n
    by (simp add: timestamp_def pad2_def pad4_def digit_char_def replace_spaces_def path_parts_def)
qed

theorem photo_name_separator_counterexample:
  "CHR ''/'' \<in> set ''a/''
   \<and> enregistrer_photo
        \<lparr>dt_date = \<lparr>year = 2024, month = 6, day = 1\<rparr>, dt_time = \<lparr>hour = 6, minute = 30\<rparr>,
           dt_second = 5\<rparr>
        (Some \<lparr>upload_name = ''a/'', upload_bytes = ''B''\<rparr>)
        \<lparr>csv = None, locked = False, photos = Map.empty, cache = None, open_error = Map.empty\<rparr>
     = Inr (''photos/20240601_063005_a'',
            \<lparr>csv = None, locked = False, photos = [''photos/20240601_063005_a'' \<mapsto> ''B''],
               cache = None, open_error = Map.empty\<rparr>)
   \<and> direct_child ''photos/20240601_063005_a''"
  by (simp add: enregistrer_photo_def timestamp_def pad2_def pad4_def digit_char_def
      replace_spaces_def path_parts_def direct_child_def Let_def)

section \<open>A save that fails\<close>

lemma enregistrer_photo_frame:
  assumes "enregistrer_photo now u w = Inr (p, w')"
  shows "csv w' = csv w" "locked w' = locked w" "cache w' = cache w"
  using assms
  by (auto simp: enregistrer_photo_def Let_def split: option.splits list.splits)

lemma load_data_cleared:
  "load_data (cache_clear w) =
     (case load_data_body (csv w) of Inl e \<Rightarrow> Inl e | Inr d \<Rightarrow> Inr (d, w\<lparr>cache := Some d\<rparr>))"
  by (simp add: load_data_def cache_clear_def split: sum.splits)

text \<open>
  Claim C1, as amended.  When the file cannot be written, \<open>save_data\<close> reports the
  failure with a message instead of raising, and leaves the world as it is.  The run
  that appended a row (the time entered being valid and the photo, if any, stored) then
  clears the cache and loads the table again from the file, which is unchanged: it ends
  with the table read back from the file, a table with the canonical columns, and with
  the error among its messages.  The appended row is not in that table; the in-memory
  table that held it is dropped, as \<open>failed_save_loses_row_counterexample\<close> below shows
  on a file of one row.
\<close>

theorem failed_save_reported:
  assumes "locked w"
    and "load_data w = Inr (df, w1)"
    and "is_HHMM (normalise_time (heure_str f))"
    and "enregistrer_photo now (photo_new f) w1 = Inr (p, w2)"
  shows "save_data any_df w = (w, [ErrorCannotWrite])
     \<and> csv w2 = csv w
     \<and> (case load_data_body (csv w) of
          Inl e \<Rightarrow> main_add now f w = Inl e
        | Inr d \<Rightarrow>
            (\<exists>msgs. main_add now f w = Inr (d, w2\<lparr>cache := Some d\<rparr>, msgs)
               \<and> ErrorCannotWrite \<in> set msgs)
            \<and> columns d = COLUMNS)"
proof -
  from is_HHMM_strptime[OF assms(3)] obtain t where
    t: "parse_time_from_text (heure_str f) = Inr t"
    by (auto simp: parse_time_from_text_def)
  note f1 = load_data_frame[OF assms(2)]
  note f2 = enregistrer_photo_frame[OF assms(4)]
  have l2: "locked w2" using assms(1) f1(2) f2(2) by simp
  have c2: "csv w2 = csv w" using f1(1) f2(1) by simp
  have s: "save_data any_df w = (w, [ErrorCannotWrite])"
    using assms(1) by (simp add: save_data_def)
  have m: "main_add now f w =
     (case load_data (cache_clear w2) of
        Inl e \<Rightarrow> Inl e
      | Inr (df3, w4) \<Rightarrow> Inr (df3, w4, [ErrorCannotWrite, SuccessSaved]))"
    using l2 by (simp add: main_add_def assms(2,4) t append_row_def save_data_def Let_def
        split: sum.splits prod.splits)
  have "case load_data_body (csv w) of
          Inl e \<Rightarrow> main_add now f w = Inl e
        | Inr d \<Rightarrow>
            (\<exists>msgs. main_add now f w = Inr (d, w2\<lparr>cache := Some d\<rparr>, msgs)
               \<and> ErrorCannotWrite \<in> set msgs)
            \<and> columns d = COLUMNS"
  proof (cases "load_data_body (csv w)")
    case (Inl e)
    then show ?thesis by (simp add: m load_data_cleared c2)
  next
    case (Inr d)
    with load_data_body_range(2)[OF Inr] show ?thesis by (simp add: m load_data_cleared c2)
  qed
  with s c2 show ?thesis by simp
qed

theorem failed_save_reported_witness:
  "\<exists>df w1 p w2 d msgs.
     locked \<lparr>csv = Some \<lparr>header = [''espece''], body = [[FText ''Bar'']]\<rparr>, locked = True,
              photos = Map.empty, cache = None, open_error = Map.empty\<rparr>
     \<and> load_data \<lparr>csv = Some \<lparr>header = [''espece''], body = [[FText ''Bar'']]\<rparr>, locked = True,
              photos = Map.empty, cache = None, open_error = Map.empty\<rparr> = Inr (df, w1)
     \<and> is_HHMM (normalise_time ''6:30'')
     \<and> enregistrer_photo
          \<lparr>dt_date = \<lparr>year = 2024, month = 6, day = 1\<rparr>, dt_time = \<lparr>hour = 6, minute = 30\<rparr>,
             dt_second = 5\<rparr> None w1 = Inr (p, w2)
     \<and> load_data_body (Some \<lparr>header = [''espece''], body = [[FText ''Bar'']]\<rparr>) = Inr d
     \<and> main_add
          \<lparr>dt_date = \<lparr>year = 2024, month = 6, day = 1\<rparr>, dt_time = \<lparr>hour = 6, minute = 30\<rparr>,
             dt_second = 5\<rparr>
          \<lparr>date_prise = \<lparr>year = 2024, month = 6, day = 1\<rparr>, heure_str = ''6:30'',
             espece = ''Lieu'', taille = 50, poids = 2, unite_poids = ''kg'', spot = ''Le Havre'',
             type_leurre = ''Jig'', nom_leurre = [], conditions = [], remis_a_leau = ''Oui'',
             commentaire = [], photo_new = None\<rparr>
          \<lparr>csv = Some \<lparr>header = [''espece''], body = [[FText ''Bar'']]\<rparr>, locked = True,
              photos = Map.empty, cache = None, open_error = Map.empty\<rparr>
        = Inr (d, w2\<lparr>cache := Some d\<rparr>, msgs)
     \<and> ErrorCannotWrite \<in> set msgs
     \<and> column_values d ''espece'' = [Str ''Bar'']"
proof -
  let ?f = "\<lparr>header = [''espece''], body = [[FText ''Bar'']]\<rparr>"
  let ?w = "\<lparr>csv = Some ?f, locked = True, photos = Map.empty, cache = None, open_error = Map.empty\<rparr>"
  let ?df = "\<lparr>columns = COLUMNS,
     rows = [(0, [Str [], Str [], Str ''Bar'', Str [], Str [], Str [], Str [], Str [], Str [],
                  Str [], Str [], Str [], Str []])]\<rparr>"
  let ?form = "\<lparr>date_prise = \<lparr>year = 2024, month = 6, day = 1\<rparr>, heure_str = ''6:30'',
             espece = ''Lieu'', taille = 50, poids = 2, unite_poids = ''kg'', spot = ''Le Havre'',
             type_leurre = ''Jig'', nom_leurre = [], conditions = [], remis_a_leau = ''Oui'',
             commentaire = [], photo_new = None\<rparr>"
  let ?now = "\<lparr>dt_date = \<lparr>year = 2024, month = 6, day = 1\<rparr>, dt_time = \<lparr>hour = 6, minute = 30\<rparr>,
             dt_second = 5\<rparr>"
  let ?w1 = "?w\<lparr>cache := Some ?df\<rparr>"
  have k: "locked ?w" by simp
  have h: "is_HHMM (normalise_time (heure_str ?form))"
    by (simp add: normalise_time_def strip_def is_space_def zfill2_def is_HHMM_def is_digit_def
        digit_val_def)
  have b: "load_data_body (Some ?f) = Inr ?df" by code_simp
  have l: "load_data ?w = Inr (?df, ?w1)"
    by (simp add: load_data_def b)
  have e: "enregistrer_photo ?now (photo_new ?form) ?w1 = Inr ([], ?w1)"
    by (simp add: enregistrer_photo_def)
  have v: "column_values ?df ''espece'' = [Str ''Bar'']"
    by (simp add: column_values_def row_get_def COLUMNS_def)
  from failed_save_reported[OF k l h e, of ?df] obtain msgs where
    "main_add ?now ?form ?w = Inr (?df, ?w1\<lparr>cache := Some ?df\<rparr>, msgs)"
    "ErrorCannotWrite \<in> set msgs"
    by (auto simp: b)
  with k l h e b v show ?thesis
    by (intro exI[of _ ?df] exI[of _ ?w1] exI[of _ "[]"] exI[of _ ?w1] exI[of _ ?df] exI[of _ msgs]) simp
qed

theorem failed_save_loses_row_counterexample:
  "main_add
     \<lparr>dt_date = \<lparr>year = 2024, month = 6, day = 1\<rparr>, dt_time = \<lparr>hour = 6, minute = 30\<rparr>,
        dt_second = 5\<rparr>
     \<lparr>date_prise = \<lparr>year = 2024, month = 6, day = 1\<rparr>, heure_str = ''6:30'',
        espece = ''Lieu'', taille = 50, poids = 2, unite_poids = ''kg'', spot = ''Le Havre'',
        type_leurre = ''Jig'', nom_leurre = [], conditions = [], remis_a_leau = ''Oui'',
        commentaire = [], photo_new = None\<rparr>
     \<lparr>csv = Some \<lparr>header = [''espece''], body = [[FText ''Bar'']]\<rparr>, locked = True,
        photos = Map.empty, cache = None, open_error = Map.empty\<rparr>
   = Inr (\<lparr>columns = COLUMNS,
           rows = [(0, [Str [], Str [], Str ''Bar'', Str [], Str [], Str [], Str [], Str [],
                        Str [], Str [], Str [], Str [], Str []])]\<rparr>,
          \<lparr>csv = Some \<lparr>header = [''espece''], body = [[FText ''Bar'']]\<rparr>, locked = True,
             photos = Map.empty,
             cache = Some \<lparr>columns = COLUMNS,
               rows = [(0, [Str [], Str [], Str ''Bar'', Str [], Str [], Str [], Str [], Str [],
                            Str [], Str [], Str [], Str [], Str []])]\<rparr>,
             open_error = Map.empty\<rparr>,
          [ErrorCannotWrite, SuccessSaved])"
proof -
  let ?f = "\<lparr>header = [''espece''], body = [[FText ''Bar'']]\<rparr>"
  have b: "load_data_body (Some ?f) =
     Inr \<lparr>columns = COLUMNS,
           rows = [(0, [Str [], Str [], Str ''Bar'', Str [], Str [], Str [], Str [], Str [],
                        Str [], Str [], Str [], Str [], Str []])]\<rparr>"
    by code_simp
  have t: "parse_time_from_text ''6:30'' = Inr \<lparr>hour = 6, minute = 30\<rparr>"
    by (simp add: parse_time_from_text_def normalise_time_def strip_def is_space_def zfill2_def
        strptime_HM_def hm_matches_def re_H_def re_M_def in_range_def is_digit_def digit_val_def)
  show ?thesis
    by (simp add: main_add_def load_data_def b t enregistrer_photo_def append_row_def
        save_data_def cache_clear_def Let_def)
qed

section \<open>Appending a row\<close>








lemma new_row_keys: "map fst (new_row f t p) = COLUMNS"
  by (simp add: new_row_def COLUMNS_def)














section \<open>Statistics by group\<close>










end
